theory Spec2Isabelle
  imports Complex_Main "HOL-Library.Sublist"
begin

chapter \<open>The analysis pipeline of the competitor intelligence radar\<close>

text \<open>
  A model of the rule-based analyser (\<^verbatim>\<open>ai.ts\<close>: capability, priority and competitor
  detection, verification status, confidence score) and of the ingestion jobs
  (\<^verbatim>\<open>ingestion.ts\<close>: clustering, alerts, the full pipeline and its job log), followed
  by the properties proved of them. Functions keep the names they have in the source;
  loops are recursive functions over the list they iterate, the database is a record of
  tables, and a thrown value is the left injection of a sum.
\<close>

section \<open>Strings and regular expressions\<close>

text \<open>
  The analyser works on JavaScript strings. A text is modelled as a \<^typ>\<open>string\<close> whose
  characters stand for the code units 0..255 (ASCII and the Latin-1 supplement).
  \<^verbatim>\<open>String.prototype.toLowerCase\<close> maps the upper-case letters of that range
  (A-Z, and U+00C0..U+00DE without the multiplication sign U+00D7) to the code unit 32
  above them and leaves every other code unit alone.
\<close>

definition toLowerCase_char :: "char \<Rightarrow> char" where
  "toLowerCase_char c =
     (let n = (of_char c :: nat)
      in if (65 \<le> n \<and> n \<le> 90) \<or> (192 \<le> n \<and> n \<le> 222 \<and> n \<noteq> 215)
         then char_of (n + 32) else c)"

definition toLowerCase :: "string \<Rightarrow> string" where
  "toLowerCase s = map toLowerCase_char s"

text \<open>\<^verbatim>\<open>s.includes(t)\<close>: \<open>t\<close> occurs in \<open>s\<close> as a contiguous run of code units.\<close>

fun str_includes :: "string \<Rightarrow> string \<Rightarrow> bool" where
  "str_includes [] t = (t = [])"
| "str_includes (c # s) t = (prefix t (c # s) \<or> str_includes s t)"

text \<open>
  The regular expressions of the pattern tables use literals, the classes \<^verbatim>\<open>\s\<close>,
  \<^verbatim>\<open>\d\<close>, \<^verbatim>\<open>.\<close> and \<^verbatim>\<open>[a-z]\<close>, grouping with alternation, \<^verbatim>\<open>?\<close>,
  \<^verbatim>\<open>*\<close> and \<^verbatim>\<open>+\<close> on a single class, and the assertion \<^verbatim>\<open>\b\<close>. Every
  pattern carries the flag \<^verbatim>\<open>i\<close> and none carries \<^verbatim>\<open>g\<close>, \<^verbatim>\<open>y\<close> or
  \<^verbatim>\<open>u\<close>, so \<^verbatim>\<open>RegExp.prototype.test\<close> is a stateless search for a match starting
  at any position.
\<close>

datatype cclass = Space | Digit | AnyChar | AZ

datatype regex =
    Eps
  | Chr char
  | Cls cclass
  | Seq regex regex
  | Alt regex regex
  | Opt regex
  | Star cclass
  | Plus cclass
  | WordBoundary

text \<open>
  Case-insensitive matching compares canonical (upper-case) code units, here given
  by their numbers. Without the
  \<^verbatim>\<open>u\<close> flag a code unit above 127 is never canonicalised to an ASCII one, so inside
  the modelled range the letters a-z and U+00E0..U+00FE (without the division sign
  U+00F7) move down by 32 and every other code unit is its own canonical form.
\<close>

definition canonicalize :: "char \<Rightarrow> nat" where
  "canonicalize c =
     (let n = (of_char c :: nat)
      in if (97 \<le> n \<and> n \<le> 122) \<or> (224 \<le> n \<and> n \<le> 254 \<and> n \<noteq> 247)
         then n - 32 else n)"

text \<open>
  \<^verbatim>\<open>\s\<close> is the white space and line terminators (tab, LF, VT, FF, CR, space, NBSP in
  the modelled range), \<^verbatim>\<open>\d\<close> the digits, \<^verbatim>\<open>.\<close> everything but the line terminators
  LF and CR, and \<^verbatim>\<open>[a-z]\<close> under the \<^verbatim>\<open>i\<close> flag every code unit whose canonical form
  is that of a letter a-z.
\<close>

fun cclass_mem :: "cclass \<Rightarrow> char \<Rightarrow> bool" where
  "cclass_mem Space c =
     (let n = (of_char c :: nat) in (9 \<le> n \<and> n \<le> 13) \<or> n = 32 \<or> n = 160)"
| "cclass_mem Digit c = (let n = (of_char c :: nat) in 48 \<le> n \<and> n \<le> 57)"
| "cclass_mem AnyChar c = (let n = (of_char c :: nat) in n \<noteq> 10 \<and> n \<noteq> 13)"
| "cclass_mem AZ c =
     (let n = canonicalize c in 65 \<le> n \<and> n \<le> 90)"

text \<open>The word characters of \<^verbatim>\<open>\b\<close>: letters, digits and the underscore.\<close>

definition is_word_char :: "char \<Rightarrow> bool" where
  "is_word_char c =
     (let n = (of_char c :: nat)
      in (48 \<le> n \<and> n \<le> 57) \<or> (65 \<le> n \<and> n \<le> 90) \<or> n = 95 \<or> (97 \<le> n \<and> n \<le> 122))"

text \<open>
  A cursor is a position in the text: the code unit just before it (none at the start)
  and the rest of the text from it on.
\<close>

type_synonym cursor = "char option \<times> string"

fun is_word_at :: "char option \<Rightarrow> bool" where
  "is_word_at None = False"
| "is_word_at (Some c) = is_word_char c"

fun next_char :: "string \<Rightarrow> char option" where
  "next_char [] = None"
| "next_char (c # cs) = Some c"

text \<open>The code unit before the cursor once a prefix has been read.\<close>

fun last_char :: "char option \<Rightarrow> string \<Rightarrow> char option" where
  "last_char p [] = p"
| "last_char p (c # cs) = last_char (Some c) cs"

text \<open>All cursors reachable from a cursor by consuming code units of one class.\<close>

fun star_steps :: "cclass \<Rightarrow> char option \<Rightarrow> string \<Rightarrow> cursor list" where
  "star_steps k p [] = [(p, [])]"
| "star_steps k p (c # cs) =
     (p, c # cs) # (if cclass_mem k c then star_steps k (Some c) cs else [])"

text \<open>
  \<open>step r cur\<close> lists the cursors at which a match of \<open>r\<close> that starts at \<open>cur\<close> can
  end. The engine's backtracking order decides which match is reported, not whether
  there is one, and \<^verbatim>\<open>test\<close> only asks whether there is one.
\<close>

fun step :: "regex \<Rightarrow> cursor \<Rightarrow> cursor list" where
  "step Eps cur = [cur]"
| "step (Chr a) (p, []) = []"
| "step (Chr a) (p, c # cs) =
     (if canonicalize c = canonicalize a then [(Some c, cs)] else [])"
| "step (Cls k) (p, []) = []"
| "step (Cls k) (p, c # cs) = (if cclass_mem k c then [(Some c, cs)] else [])"
| "step (Seq r1 r2) cur = concat (map (step r2) (step r1 cur))"
| "step (Alt r1 r2) cur = step r1 cur @ step r2 cur"
| "step (Opt r) cur = step r cur @ [cur]"
| "step (Star k) (p, s) = star_steps k p s"
| "step (Plus k) (p, []) = []"
| "step (Plus k) (p, c # cs) = (if cclass_mem k c then star_steps k (Some c) cs else [])"
| "step WordBoundary (p, s) =
     (if is_word_at p \<noteq> is_word_at (next_char s) then [(p, s)] else [])"

fun search :: "regex \<Rightarrow> char option \<Rightarrow> string \<Rightarrow> bool" where
  "search r p [] = (step r (p, []) \<noteq> [])"
| "search r p (c # cs) = (step r (p, c # cs) \<noteq> [] \<or> search r (Some c) cs)"

definition regex_test :: "regex \<Rightarrow> string \<Rightarrow> bool" where
  "regex_test r s = search r None s"

text \<open>Notation for the tables: a literal word, a sequence, a group of alternative words.\<close>

fun lit :: "string \<Rightarrow> regex" where
  "lit [] = Eps"
| "lit (c # cs) = Seq (Chr c) (lit cs)"

fun seqs :: "regex list \<Rightarrow> regex" where
  "seqs [] = Eps"
| "seqs (r # rs) = Seq r (seqs rs)"

fun oneOf :: "string \<Rightarrow> string list \<Rightarrow> regex" where
  "oneOf w [] = lit w"
| "oneOf w (v # vs) = Alt (lit w) (oneOf v vs)"

section \<open>Priority detection\<close>

datatype AICapability =
    AI_VOICE_AGENT
  | AI_CHAT_AGENT
  | AI_LEAD_RESPONSE
  | AI_SCHEDULING_BOOKING
  | AI_DISPATCH_ROUTING
  | AI_MARKETING_AUTOMATION
  | AI_REPUTATION_REVIEWS
  | AI_ANALYTICS_INSIGHTS
  | AI_PAYMENTS_COLLECTIONS
  | AI_WORKFLOW_AUTOMATION

datatype Priority = P0 | P1 | P2

definition P0_PATTERNS :: "regex list" where
  "P0_PATTERNS =
     [ lit ''launch'',
       lit ''announc'',
       lit ''acqui'',
       lit ''merger'',
       seqs [lit ''pricing'', Star Space, oneOf ''change'' [''update'', ''new'']],
       seqs [lit ''major'', Star Space, oneOf ''update'' [''release'', ''feature'']],
       lit ''revolutionary'',
       seqs [lit ''game'', Star Space, lit ''chang''],
       seqs [lit ''industry'', Star Space, lit ''first''],
       seqs [lit ''raise'', Opt (Chr CHR ''s''), Star Space, Opt (Chr CHR ''$''),
             Plus Digit, Star Space, oneOf ''million'' [''m'', ''billion'', ''b'']],
       seqs [lit ''funding'', Star Space, lit ''round''],
       seqs [lit ''series'', Star Space, Cls AZ] ]"

definition P1_PATTERNS :: "regex list" where
  "P1_PATTERNS =
     [ seqs [lit ''new'', Star Space, lit ''feature''],
       lit ''improvement'',
       lit ''enhanc'',
       lit ''updat'',
       lit ''integrat'',
       lit ''partner'',
       lit ''expand'',
       seqs [lit ''add'', Star AnyChar, lit ''capabilit''],
       lit ''beta'',
       seqs [lit ''early'', Star Space, lit ''access''] ]"

text \<open>
  The loop \<^verbatim>\<open>for (const pattern of patterns) if (pattern.test(text)) return ...\<close>:
  does the loop reach its \<^verbatim>\<open>return\<close>?
\<close>

fun any_pattern_matches :: "regex list \<Rightarrow> string \<Rightarrow> bool" where
  "any_pattern_matches [] text = False"
| "any_pattern_matches (pattern # patterns) text =
     (if regex_test pattern text then True else any_pattern_matches patterns text)"

definition detectPriority :: "string \<Rightarrow> AICapability list \<Rightarrow> Priority" where
  "detectPriority text aiCapabilities =
     (if any_pattern_matches P0_PATTERNS text then P0
      else if any_pattern_matches P1_PATTERNS text then P1
      else if AI_VOICE_AGENT \<in> set aiCapabilities then P1
      else P2)"

section \<open>AI capability detection\<close>

text \<open>
  Two shapes make up most of the capability table: \<^verbatim>\<open>a\s*b\<close> (two words with optional
  white space between them) and \<^verbatim>\<open>a.*b\<close> (two words on one line, in that order).
\<close>

definition spaced :: "string \<Rightarrow> string \<Rightarrow> regex" where
  "spaced a b = seqs [lit a, Star Space, lit b]"

definition gap :: "string \<Rightarrow> string \<Rightarrow> regex" where
  "gap a b = seqs [lit a, Star AnyChar, lit b]"

definition AI_CAPABILITY_PATTERNS :: "(AICapability \<times> regex list) list" where
  "AI_CAPABILITY_PATTERNS =
     [ (AI_VOICE_AGENT,
         [ seqs [lit ''voice'', Star Space, oneOf ''ai'' [''agent'', ''assistant'', ''bot'']],
           spaced ''ai'' ''voice'',
           seqs [lit ''conversational'', Star Space, lit ''ai'', Star AnyChar, lit ''voice''],
           seqs [lit ''phone'', Star Space, oneOf ''ai'' [''bot'', ''agent'']],
           spaced ''virtual'' ''receptionist'',
           spaced ''ai'' ''calling'',
           spaced ''voice'' ''automation'' ]),
       (AI_CHAT_AGENT,
         [ seqs [lit ''chat'', Star Space, oneOf ''ai'' [''bot'', ''agent'']],
           spaced ''ai'' ''chat'',
           spaced ''conversational'' ''ai'',
           seqs [lit ''live'', Star Space, lit ''chat'', Star AnyChar, lit ''ai''],
           spaced ''messaging'' ''ai'',
           spaced ''ai'' ''messaging'' ]),
       (AI_LEAD_RESPONSE,
         [ seqs [lit ''lead'', Star Space, lit ''response'', Star AnyChar, lit ''ai''],
           seqs [lit ''ai'', Star AnyChar, lit ''lead'', Star Space,
                 oneOf ''response'' [''follow'', ''nurtur'']],
           spaced ''instant'' ''lead'',
           spaced ''automated'' ''lead'',
           spaced ''lead'' ''engagement'' ]),
       (AI_SCHEDULING_BOOKING,
         [ spaced ''ai'' ''schedul'',
           gap ''schedul'' ''ai'',
           spaced ''ai'' ''book'',
           gap ''book'' ''ai'',
           spaced ''automated'' ''schedul'',
           spaced ''smart'' ''schedul'',
           spaced ''intelligent'' ''schedul'' ]),
       (AI_DISPATCH_ROUTING,
         [ spaced ''ai'' ''dispatch'',
           gap ''dispatch'' ''ai'',
           spaced ''intelligent'' ''routing'',
           spaced ''ai'' ''rout'',
           spaced ''smart'' ''dispatch'',
           spaced ''automated'' ''dispatch'' ]),
       (AI_MARKETING_AUTOMATION,
         [ spaced ''ai'' ''market'',
           gap ''market'' ''ai'',
           spaced ''ai'' ''campaign'',
           spaced ''automated'' ''market'',
           spaced ''intelligent'' ''market'',
           spaced ''ai'' ''email'',
           spaced ''ai'' ''sms'' ]),
       (AI_REPUTATION_REVIEWS,
         [ spaced ''ai'' ''review'',
           gap ''review'' ''ai'',
           gap ''reputation'' ''ai'',
           spaced ''ai'' ''reputation'',
           spaced ''sentiment'' ''analysis'',
           seqs [lit ''review'', Star Space, lit ''management'', Star AnyChar, lit ''ai''] ]),
       (AI_ANALYTICS_INSIGHTS,
         [ spaced ''ai'' ''analytic'',
           gap ''analytic'' ''ai'',
           spaced ''ai'' ''insight'',
           spaced ''predictive'' ''analytic'',
           spaced ''ai'' ''reporting'',
           spaced ''intelligent'' ''analytic'',
           spaced ''data'' ''ai'' ]),
       (AI_PAYMENTS_COLLECTIONS,
         [ spaced ''ai'' ''payment'',
           gap ''payment'' ''ai'',
           spaced ''ai'' ''collection'',
           gap ''collection'' ''ai'',
           spaced ''automated'' ''billing'',
           spaced ''smart'' ''payment'' ]),
       (AI_WORKFLOW_AUTOMATION,
         [ spaced ''ai'' ''workflow'',
           gap ''workflow'' ''ai'',
           seqs [lit ''process'', Star Space, lit ''automation'', Star AnyChar, lit ''ai''],
           spaced ''ai'' ''automation'',
           spaced ''intelligent'' ''workflow'',
           spaced ''ai'' ''process'' ]) ]"

text \<open>The pattern \<^verbatim>\<open>/\bai\b/i\<close> of the fallback.\<close>

definition STANDALONE_AI :: regex where
  "STANDALONE_AI = seqs [WordBoundary, lit ''ai'', WordBoundary]"

text \<open>\<^verbatim>\<open>Set.prototype.add\<close> on a set kept in insertion order.\<close>

definition set_add :: "'a list \<Rightarrow> 'a \<Rightarrow> 'a list" where
  "set_add xs x = (if x \<in> set xs then xs else xs @ [x])"

text \<open>The loop over \<^verbatim>\<open>Object.entries(AI_CAPABILITY_PATTERNS)\<close>, in the table's order.\<close>

fun collect_capabilities ::
  "(AICapability \<times> regex list) list \<Rightarrow> string \<Rightarrow> AICapability list \<Rightarrow> AICapability list" where
  "collect_capabilities [] text capabilities = capabilities"
| "collect_capabilities ((capability, patterns) # entries) text capabilities =
     collect_capabilities entries text
       (if any_pattern_matches patterns text then set_add capabilities capability
        else capabilities)"

definition detectAICapabilities :: "string \<Rightarrow> AICapability list" where
  "detectAICapabilities text =
     (let capabilities = collect_capabilities AI_CAPABILITY_PATTERNS text []
      in if length capabilities = 0 \<and> regex_test STANDALONE_AI text
         then set_add capabilities AI_WORKFLOW_AUTOMATION
         else capabilities)"

section \<open>Competitor detection\<close>

record CompetitorConfig =
  name :: string
  website :: "string option"
  verticals :: "string list"
  "keywords" :: "string list"
  category :: string




section \<open>Items, verification and confidence\<close>

datatype TrustTier = HIGH | MEDIUM | LOW

datatype VerificationStatus = VERIFIED | CLAIM_UNVERIFIED

record Source =
  trustTier :: TrustTier
  source_name :: string

record RawItemWithSource =
  item_id :: nat
  url :: string
  title :: "string option"
  rawText :: "string option"
  source :: Source

text \<open>
  The score is a JavaScript number. Every value it takes is a multiple of one half
  between 2.5 and 6.5, which a double holds exactly, so rational arithmetic computes
  the same values. \<^verbatim>\<open>Math.round\<close> rounds to the nearest integer, a tie towards
  positive infinity.
\<close>

definition Math_round :: "rat \<Rightarrow> int" where
  "Math_round x = \<lfloor>x + 1 / 2\<rfloor>"

definition highTrustCount :: "('a RawItemWithSource_scheme) list \<Rightarrow> nat" where
  "highTrustCount items = length (filter (\<lambda>i. trustTier (source i) = HIGH) items)"

definition mediumTrustCount :: "('a RawItemWithSource_scheme) list \<Rightarrow> nat" where
  "mediumTrustCount items = length (filter (\<lambda>i. trustTier (source i) = MEDIUM) items)"

text \<open>The value of \<^verbatim>\<open>score\<close> when \<^verbatim>\<open>calculateConfidence\<close> reaches its \<^verbatim>\<open>return\<close>.\<close>

definition confidence_score ::
  "('a RawItemWithSource_scheme) list \<Rightarrow> VerificationStatus \<Rightarrow> rat" where
  "confidence_score items verificationStatus =
     (let score = 3;
          score = (if highTrustCount items \<ge> 2 then score + 1 else score);
          score = (if highTrustCount items \<ge> 1 then score + 1 / 2 else score);
          score = (if mediumTrustCount items \<ge> 2 then score + 1 / 2 else score);
          score = (if verificationStatus = VERIFIED then score + 1 else score);
          score = (if verificationStatus = CLAIM_UNVERIFIED then score - 1 / 2 else score);
          score = (if length items \<ge> 3 then score + 1 / 2 else score)
      in score)"

definition calculateConfidence ::
  "('a RawItemWithSource_scheme) list \<Rightarrow> VerificationStatus \<Rightarrow> int" where
  "calculateConfidence items verificationStatus =
     min 5 (max 1 (Math_round (confidence_score items verificationStatus)))"

definition determineVerificationStatus ::
  "('a RawItemWithSource_scheme) list \<Rightarrow> bool \<Rightarrow> VerificationStatus" where
  "determineVerificationStatus items hasAIClaims =
     (if \<not> hasAIClaims then VERIFIED
      else
        let hasOfficialSource = list_ex (\<lambda>i. trustTier (source i) = HIGH) items;
            uniqueSources = length (remdups (map (\<lambda>i. source_name (source i)) items))
        in if hasOfficialSource \<or> uniqueSources \<ge> 2 then VERIFIED else CLAIM_UNVERIFIED)"

section \<open>The store\<close>

text \<open>
  Identifiers are modelled as natural numbers, handed out by the store from a counter.
  A table is the list of its rows; a query without \<^verbatim>\<open>orderBy\<close> reads the rows in
  the table's order. Times are milliseconds since the epoch; a new cluster row gets
  the time of its creation in both \<open>createdAt\<close> and \<open>updatedAt\<close>.
\<close>

record RawItem = RawItemWithSource +
  processed :: bool

record StoryCluster =
  cluster_id :: nat
  canonicalTitle :: string
  createdAt :: int
  updatedAt :: int

record StoryItemLink =
  clusterId :: nat
  rawItemId :: nat

record database =
  rawItems :: "RawItem list"
  storyClusters :: "StoryCluster list"
  storyItemLinks :: "StoryItemLink list"
  nextId :: nat

section \<open>Job 3: dedupe and cluster\<close>

text \<open>\<^verbatim>\<open>s || d\<close> on a nullable string: \<^verbatim>\<open>null\<close> and the empty string are falsy.\<close>

definition js_or :: "string option \<Rightarrow> string \<Rightarrow> string" where
  "js_or s d = (case s of None \<Rightarrow> d | Some v \<Rightarrow> if v = [] then d else v)"

text \<open>
  \<^verbatim>\<open>findMany({ where: { processed: false, rawText: { not: null } }, take: 100 })\<close>
\<close>

definition eligible :: "RawItem \<Rightarrow> bool" where
  "eligible item = (\<not> processed item \<and> rawText item \<noteq> None)"

definition unprocessedItems :: "database \<Rightarrow> RawItem list" where
  "unprocessedItems d = take 100 (filter eligible (rawItems d))"

definition item_text :: "RawItem \<Rightarrow> string" where
  "item_text item = toLowerCase (js_or (title item) [] @ '' '' @ js_or (rawText item) [])"

definition competitor_matches :: "string \<Rightarrow> CompetitorConfig \<Rightarrow> bool" where
  "competitor_matches text competitor =
     (str_includes text (toLowerCase (name competitor)) \<or>
      list_ex (\<lambda>k. str_includes text (toLowerCase k)) (keywords competitor))"

fun competitorKey :: "string \<Rightarrow> CompetitorConfig list \<Rightarrow> string" where
  "competitorKey text [] = ''unknown''"
| "competitorKey text (competitor # rest) =
     (if competitor_matches text competitor then name competitor
      else competitorKey text rest)"

text \<open>
  \<^verbatim>\<open>competitorGroups\<close> is a \<^verbatim>\<open>Map\<close>, iterated in the order its keys were first set:
  an association list in that order.
\<close>

type_synonym groups = "(string \<times> RawItem list) list"

fun group_push :: "groups \<Rightarrow> string \<Rightarrow> RawItem \<Rightarrow> groups" where
  "group_push [] key item = [(key, [item])]"
| "group_push ((k, items) # rest) key item =
     (if k = key then (k, items @ [item]) # rest else (k, items) # group_push rest key item)"

fun group_items :: "CompetitorConfig list \<Rightarrow> RawItem list \<Rightarrow> groups \<Rightarrow> groups" where
  "group_items competitors [] competitorGroups = competitorGroups"
| "group_items competitors (item # rest) competitorGroups =
     group_items competitors rest
       (group_push competitorGroups (competitorKey (item_text item) competitors) item)"

text \<open>The state of a run: the store and the two counters the job returns.\<close>

record cluster_run =
  db :: database
  clustersCreated :: nat
  itemsLinked :: nat

definition mark_processed :: "nat \<Rightarrow> RawItem list \<Rightarrow> RawItem list" where
  "mark_processed i rows =
     map (\<lambda>row. if item_id row = i then row\<lparr>processed := True\<rparr> else row) rows"

definition link_item :: "nat \<Rightarrow> RawItem \<Rightarrow> cluster_run \<Rightarrow> cluster_run" where
  "link_item cid item st =
     (let existingLink =
            find (\<lambda>l. clusterId l = cid \<and> rawItemId l = item_id item)
              (storyItemLinks (db st));
          st1 = (case existingLink of
                   None \<Rightarrow>
                     st\<lparr>db := (db st)\<lparr>storyItemLinks :=
                                  storyItemLinks (db st) @
                                    [\<lparr>clusterId = cid, rawItemId = item_id item\<rparr>]\<rparr>,
                        itemsLinked := itemsLinked st + 1\<rparr>
                 | Some l \<Rightarrow> st)
      in st1\<lparr>db := (db st1)\<lparr>rawItems := mark_processed (item_id item) (rawItems (db st1))\<rparr>\<rparr>)"

fun link_items :: "nat \<Rightarrow> RawItem list \<Rightarrow> cluster_run \<Rightarrow> cluster_run" where
  "link_items cid [] st = st"
| "link_items cid (item # items) st = link_items cid items (link_item cid item st)"

definition DAY_MS :: int where
  "DAY_MS = 24 * 60 * 60 * 1000"

definition recent_cluster_for :: "string \<Rightarrow> int \<Rightarrow> StoryCluster \<Rightarrow> bool" where
  "recent_cluster_for competitorName now c =
     (str_includes (canonicalTitle c) competitorName \<and> createdAt c \<ge> now - DAY_MS)"

text \<open>
  Find or create the cluster of a group. \<open>today\<close> is the date part of
  \<^verbatim>\<open>new Date().toISOString()\<close> and \<open>now\<close> the clock; the clock reads of one run
  are taken at one instant.
\<close>

definition resolve_cluster ::
  "string \<Rightarrow> int \<Rightarrow> string \<Rightarrow> RawItem list \<Rightarrow> cluster_run \<Rightarrow> nat \<times> cluster_run" where
  "resolve_cluster today now competitorName items st =
     (let title0 = js_or (title (hd items)) (competitorName @ '' Updates - '' @ today);
          existingCluster =
            find (recent_cluster_for competitorName now) (storyClusters (db st))
      in case existingCluster of
           Some c \<Rightarrow>
             (cluster_id c,
              st\<lparr>db := (db st)\<lparr>storyClusters :=
                    map (\<lambda>row. if cluster_id row = cluster_id c
                               then row\<lparr>updatedAt := now\<rparr> else row)
                      (storyClusters (db st))\<rparr>\<rparr>)
         | None \<Rightarrow>
             (nextId (db st),
              st\<lparr>db := (db st)\<lparr>storyClusters :=
                           storyClusters (db st) @
                             [\<lparr>cluster_id = nextId (db st), canonicalTitle = title0,
                               createdAt = now, updatedAt = now\<rparr>],
                         nextId := nextId (db st) + 1\<rparr>,
                 clustersCreated := clustersCreated st + 1\<rparr>))"

definition process_group ::
  "string \<Rightarrow> int \<Rightarrow> string \<times> RawItem list \<Rightarrow> cluster_run \<Rightarrow> cluster_run" where
  "process_group today now g st =
     (case g of (competitorName, items) \<Rightarrow>
        if length items = 0 then st
        else case resolve_cluster today now competitorName items st of
               (cid, st1) \<Rightarrow> link_items cid items st1)"

fun process_groups :: "string \<Rightarrow> int \<Rightarrow> groups \<Rightarrow> cluster_run \<Rightarrow> cluster_run" where
  "process_groups today now [] st = st"
| "process_groups today now (g # gs) st =
     process_groups today now gs (process_group today now g st)"

definition dedupeAndClusterJob ::
  "CompetitorConfig list \<Rightarrow> string \<Rightarrow> int \<Rightarrow> database \<Rightarrow> cluster_run" where
  "dedupeAndClusterJob competitors today now d =
     (let competitorGroups = group_items competitors (unprocessedItems d) []
      in process_groups today now competitorGroups
           \<lparr>db = d, clustersCreated = 0, itemsLinked = 0\<rparr>)"

text \<open>
  Two relations between the item table before and after part of a run: every row is
  an old row, possibly with its flag set; and every row with one of the given
  identifiers has its flag set.
\<close>

definition evolves :: "RawItem list \<Rightarrow> RawItem list \<Rightarrow> bool" where
  "evolves rows rows' =
     (\<forall>r' \<in> set rows'. \<exists>r \<in> set rows. r' = r \<or> r' = r\<lparr>processed := True\<rparr>)"

definition all_done :: "nat set \<Rightarrow> RawItem list \<Rightarrow> bool" where
  "all_done ids rows = (\<forall>r \<in> set rows. item_id r \<in> ids \<longrightarrow> processed r)"

text \<open>A small store and configuration to run the job on.\<close>

definition example_item :: RawItem where
  "example_item =
     \<lparr>item_id = 1, url = ''https://news.example/1'', title = Some ''Podium adds AI chat'',
       rawText = Some ''Podium today added an AI chat agent.'',
       source = \<lparr>trustTier = LOW, source_name = ''News''\<rparr>, processed = False\<rparr>"

definition example_untitled_item :: RawItem where
  "example_untitled_item =
     \<lparr>item_id = 2, url = ''https://news.example/2'', title = None,
       rawText = Some ''Nothing about anyone.'',
       source = \<lparr>trustTier = LOW, source_name = ''News''\<rparr>, processed = False\<rparr>"

definition example_database :: database where
  "example_database =
     \<lparr>rawItems = [example_item, example_untitled_item],
       storyClusters = [], storyItemLinks = [], nextId = 0\<rparr>"

definition example_competitors :: "CompetitorConfig list" where
  "example_competitors =
     [\<lparr>name = ''Podium'', website = None, verticals = [''Auto''],
       keywords = [''podium reviews''], category = ''PLATFORM''\<rparr>]"

section \<open>Job 5: alerts\<close>

record StorySummary =
  summary_id :: nat
  priority :: Priority
  verticalId :: "nat option"
  competitorId :: "nat option"
  summary_aiCapabilities :: "AICapability list"
  summary_createdAt :: int
  summary :: string
  competitor_name :: "string option"

text \<open>
  An alert rule with its join rows: \<open>alert_verticals\<close> and \<open>alert_competitors\<close> hold the
  \<^verbatim>\<open>verticalId\<close> and \<^verbatim>\<open>competitorId\<close> of the rows of \<^verbatim>\<open>alert.verticals\<close> and
  \<^verbatim>\<open>alert.competitors\<close>.
\<close>

record UserAlert =
  userId :: nat
  isActive :: bool
  alert_verticals :: "nat list"
  alert_competitors :: "nat list"
  minPriority :: Priority
  alert_aiCapabilities :: "AICapability list"

record Notification =
  notification_userId :: nat
  notification_title :: string
  message :: string
  storyId :: nat

definition SIX_HOURS_MS :: int where
  "SIX_HOURS_MS = 6 * 60 * 60 * 1000"

definition recentSummaries :: "int \<Rightarrow> StorySummary list \<Rightarrow> StorySummary list" where
  "recentSummaries now rows =
     filter (\<lambda>s. priority s \<in> set [P0, P1] \<and> summary_createdAt s \<ge> now - SIX_HOURS_MS) rows"

definition matchesVertical :: "UserAlert \<Rightarrow> StorySummary \<Rightarrow> bool" where
  "matchesVertical alert s =
     (length (alert_verticals alert) = 0 \<or>
      list_ex (\<lambda>v. Some v = verticalId s) (alert_verticals alert))"

definition matchesCompetitor :: "UserAlert \<Rightarrow> StorySummary \<Rightarrow> bool" where
  "matchesCompetitor alert s =
     (length (alert_competitors alert) = 0 \<or>
      list_ex (\<lambda>c. Some c = competitorId s) (alert_competitors alert))"

definition matchesPriority :: "UserAlert \<Rightarrow> StorySummary \<Rightarrow> bool" where
  "matchesPriority alert s =
     (priority s = P0 \<or> (priority s = P1 \<and> minPriority alert \<noteq> P0))"

definition matchesCapability :: "UserAlert \<Rightarrow> StorySummary \<Rightarrow> bool" where
  "matchesCapability alert s =
     (length (alert_aiCapabilities alert) = 0 \<or>
      list_ex (\<lambda>c. c \<in> set (alert_aiCapabilities alert)) (summary_aiCapabilities s))"

fun priority_string :: "Priority \<Rightarrow> string" where
  "priority_string P0 = ''P0''"
| "priority_string P1 = ''P1''"
| "priority_string P2 = ''P2''"

record alert_run =
  notifications :: "Notification list"
  alertsSent :: nat

text \<open>The body of the inner loop, for one summary and one alert rule.\<close>

definition alert_step :: "StorySummary \<Rightarrow> UserAlert \<Rightarrow> alert_run \<Rightarrow> alert_run" where
  "alert_step s alert st =
     (if matchesVertical alert s \<and> matchesCompetitor alert s \<and>
         matchesPriority alert s \<and> matchesCapability alert s
      then
        (case find (\<lambda>n. notification_userId n = userId alert \<and> storyId n = summary_id s)
                (notifications st) of
           None \<Rightarrow>
             st\<lparr>notifications := notifications st @
                   [\<lparr>notification_userId = userId alert,
                     notification_title =
                       priority_string (priority s) @ '': '' @
                       js_or (competitor_name s) ''Competitor'' @ '' Update'',
                     message = take 200 (summary s),
                     storyId = summary_id s\<rparr>],
                alertsSent := alertsSent st + 1\<rparr>
         | Some existingNotification \<Rightarrow> st)
      else st)"

fun alerts_loop :: "StorySummary \<Rightarrow> UserAlert list \<Rightarrow> alert_run \<Rightarrow> alert_run" where
  "alerts_loop s [] st = st"
| "alerts_loop s (alert # alerts) st = alerts_loop s alerts (alert_step s alert st)"

fun summaries_loop :: "StorySummary list \<Rightarrow> UserAlert list \<Rightarrow> alert_run \<Rightarrow> alert_run" where
  "summaries_loop [] alerts st = st"
| "summaries_loop (s # rest) alerts st = summaries_loop rest alerts (alerts_loop s alerts st)"

definition alertsJob ::
  "int \<Rightarrow> StorySummary list \<Rightarrow> UserAlert list \<Rightarrow> Notification list \<Rightarrow> alert_run" where
  "alertsJob now summaryRows alertRows notificationRows =
     summaries_loop (recentSummaries now summaryRows) (filter isActive alertRows)
       \<lparr>notifications = notificationRows, alertsSent = 0\<rparr>"

text \<open>
  The condition of the \<^verbatim>\<open>if\<close> in the loop body, and the number of notifications
  stored for a user and a story.
\<close>

definition alert_matches :: "UserAlert \<Rightarrow> StorySummary \<Rightarrow> bool" where
  "alert_matches alert s =
     (matchesVertical alert s \<and> matchesCompetitor alert s \<and>
      matchesPriority alert s \<and> matchesCapability alert s)"

definition notified :: "nat \<Rightarrow> nat \<Rightarrow> Notification list \<Rightarrow> nat" where
  "notified u sid ns = length (filter (\<lambda>n. notification_userId n = u \<and> storyId n = sid) ns)"

text \<open>A summary and an alert rule to run the job on.\<close>

definition example_summary :: StorySummary where
  "example_summary =
     \<lparr>summary_id = 1, priority = P1, verticalId = Some 3, competitorId = None,
       summary_aiCapabilities = [AI_CHAT_AGENT], summary_createdAt = 900,
       summary = ''Podium today added an AI chat agent.'', competitor_name = None\<rparr>"

definition example_alert :: UserAlert where
  "example_alert =
     \<lparr>userId = 5, isActive = True, alert_verticals = [3], alert_competitors = [],
       minPriority = P1, alert_aiCapabilities = [AI_VOICE_AGENT, AI_CHAT_AGENT]\<rparr>"

section \<open>The full pipeline\<close>

datatype JobStatus = RUNNING | COMPLETED | FAILED

text \<open>
  A thrown value is an \<^verbatim>\<open>Error\<close> with its message, or something else, given by what
  \<^verbatim>\<open>String(error)\<close> makes of it.
\<close>

datatype thrown = ErrorObject string | OtherValue string

fun errorMsg :: "thrown \<Rightarrow> string" where
  "errorMsg (ErrorObject msg) = msg"
| "errorMsg (OtherValue str) = str"

text \<open>
  The fields that \<^verbatim>\<open>createJobLog\<close> does not set are absent until the update.
  Writes to the job log are taken to succeed.
\<close>

record JobRunLog =
  log_id :: nat
  jobName :: string
  log_status :: JobStatus
  finishedAt :: "int option"
  itemsProcessed :: "nat option"
  errorMessage :: "string option"

text \<open>
  A stage runs on the world outside the job log (the other tables, the network) and
  either returns its counts or throws; what it did to the world before throwing stays.
  The five stages are parameters: \<open>fetch_stage\<close> returns \<^verbatim>\<open>itemsFetched\<close>,
  \<open>normalize_stage\<close> returns \<^verbatim>\<open>itemsProcessed\<close>, \<open>cluster_stage\<close> returns
  \<^verbatim>\<open>clustersCreated\<close> and \<^verbatim>\<open>itemsLinked\<close>, \<open>summarize_stage\<close> returns
  \<^verbatim>\<open>summariesCreated\<close> and \<open>alerts_stage\<close> returns \<^verbatim>\<open>alertsSent\<close>.
\<close>

record 'w pipeline =
  fetch_stage :: "'w \<Rightarrow> (thrown + nat) \<times> 'w"
  normalize_stage :: "'w \<Rightarrow> (thrown + nat) \<times> 'w"
  cluster_stage :: "'w \<Rightarrow> (thrown + nat \<times> nat) \<times> 'w"
  summarize_stage :: "'w \<Rightarrow> (thrown + nat) \<times> 'w"
  alerts_stage :: "'w \<Rightarrow> (thrown + nat) \<times> 'w"

record 'w system =
  world :: 'w
  jobRunLogs :: "JobRunLog list"
  nextLogId :: nat

definition createJobLog :: "string \<Rightarrow> 'w system \<Rightarrow> nat \<times> 'w system" where
  "createJobLog jn s =
     (nextLogId s,
      s\<lparr>jobRunLogs := jobRunLogs s @
            [\<lparr>log_id = nextLogId s, jobName = jn, log_status = RUNNING,
              finishedAt = None, itemsProcessed = None, errorMessage = None\<rparr>],
        nextLogId := nextLogId s + 1\<rparr>)"

text \<open>An \<^verbatim>\<open>undefined\<close> error message leaves the column as it is.\<close>

definition updateJobLog ::
  "int \<Rightarrow> nat \<Rightarrow> JobStatus \<Rightarrow> nat \<Rightarrow> string option \<Rightarrow> 'w system \<Rightarrow> 'w system" where
  "updateJobLog now i st n msg s =
     s\<lparr>jobRunLogs :=
         map (\<lambda>row. if log_id row = i
                    then row\<lparr>log_status := st, finishedAt := Some now,
                             itemsProcessed := Some n,
                             errorMessage := (case msg of None \<Rightarrow> errorMessage row
                                              | Some m \<Rightarrow> Some m)\<rparr>
                    else row)
           (jobRunLogs s)\<rparr>"

text \<open>The body of the \<^verbatim>\<open>try\<close> block: the first stage that throws ends it.\<close>

definition pipeline_body :: "'w pipeline \<Rightarrow> 'w \<Rightarrow> (thrown + nat) \<times> 'w" where
  "pipeline_body J w0 =
     (case fetch_stage J w0 of
        (Inl e, w1) \<Rightarrow> (Inl e, w1)
      | (Inr itemsFetched, w1) \<Rightarrow>
     (case normalize_stage J w1 of
        (Inl e, w2) \<Rightarrow> (Inl e, w2)
      | (Inr normalized, w2) \<Rightarrow>
     (case cluster_stage J w2 of
        (Inl e, w3) \<Rightarrow> (Inl e, w3)
      | (Inr (created, linked), w3) \<Rightarrow>
     (case summarize_stage J w3 of
        (Inl e, w4) \<Rightarrow> (Inl e, w4)
      | (Inr summariesCreated, w4) \<Rightarrow>
     (case alerts_stage J w4 of
        (Inl e, w5) \<Rightarrow> (Inl e, w5)
      | (Inr sent, w5) \<Rightarrow>
          (Inr (itemsFetched + normalized + linked + summariesCreated + sent), w5))))))"

definition runAllJobs :: "'w pipeline \<Rightarrow> int \<Rightarrow> 'w system \<Rightarrow> (thrown + unit) \<times> 'w system" where
  "runAllJobs J now s =
     (case createJobLog ''full_pipeline'' s of
        (jobLogId, s1) \<Rightarrow>
          (case pipeline_body J (world s1) of
             (Inr totalProcessed, w) \<Rightarrow>
               (Inr (), updateJobLog now jobLogId COMPLETED totalProcessed None (s1\<lparr>world := w\<rparr>))
           | (Inl error, w) \<Rightarrow>
               (Inl error,
                updateJobLog now jobLogId FAILED 0 (Some (errorMsg error)) (s1\<lparr>world := w\<rparr>))))"

text \<open>
  Two pipelines to run: in the first the cluster stage throws an \<^verbatim>\<open>Error\<close> whose
  message has 1000 code units, in the second every stage returns.
\<close>

definition example_long_message :: string where
  "example_long_message = replicate 1000 CHR ''x''"

definition failing_pipeline :: "nat pipeline" where
  "failing_pipeline =
     \<lparr>fetch_stage = (\<lambda>w. (Inr 3, w + 1)),
       normalize_stage = (\<lambda>w. (Inr 2, w + 1)),
       cluster_stage = (\<lambda>w. (Inl (ErrorObject example_long_message), w + 1)),
       summarize_stage = (\<lambda>w. (Inr 1, w + 1)),
       alerts_stage = (\<lambda>w. (Inr 1, w + 1))\<rparr>"

definition working_pipeline :: "nat pipeline" where
  "working_pipeline =
     failing_pipeline\<lparr>cluster_stage := (\<lambda>w. (Inr (4, 5), w + 1))\<rparr>"

definition empty_system :: "nat system" where
  "empty_system = \<lparr>world = 0, jobRunLogs = [], nextLogId = 0\<rparr>"

section \<open>Facts about the matcher\<close>

lemma any_pattern_matches_iff:
  "any_pattern_matches ps text = (\<exists>p \<in> set ps. regex_test p text)"
  by (induction ps) auto

lemma step_lit_prefix: "step (lit w) (p, w @ rest) \<noteq> []"
  by (induction w arbitrary: p) auto

lemma search_here: "step r (p, s) \<noteq> [] \<Longrightarrow> search r p s"
  by (cases s) auto

lemma search_lit: "search (lit w) q (pre @ w @ post)"
proof (induction pre arbitrary: q)
  case Nil
  show ?case using search_here [OF step_lit_prefix] by simp
next
  case (Cons c pre)
  then show ?case by simp
qed

lemma regex_test_lit: "regex_test (lit w) (pre @ w @ post)"
  by (simp add: regex_test_def search_lit)

section \<open>Priority detection is a cascade\<close>

lemma acquisition_matches_P0:
  "any_pattern_matches P0_PATTERNS (pre @ ''acquisition'' @ post)"
proof -
  have "regex_test (lit ''acqui'') (pre @ ''acqui'' @ (''sition'' @ post))"
    by (rule regex_test_lit)
  then have "regex_test (lit ''acqui'') (pre @ ''acquisition'' @ post)" by simp
  moreover have "lit ''acqui'' \<in> set P0_PATTERNS" by (simp add: P0_PATTERNS_def)
  ultimately show ?thesis unfolding any_pattern_matches_iff by blast
qed

text \<open>
  C1. For every text and every list of detected capabilities, the priority is P0 when
  some P0 pattern matches somewhere in the text; otherwise P1 when some P1 pattern
  matches; otherwise P1 when the capabilities contain the voice agent; otherwise P2.
  A text in which the word "acquisition" occurs gets P0 whatever else it contains, for
  instance the P1 word "beta".
\<close>

theorem detectPriority_cascade:
  "detectPriority text aiCapabilities =
     (if (\<exists>p \<in> set P0_PATTERNS. regex_test p text) then P0
      else if (\<exists>p \<in> set P1_PATTERNS. regex_test p text) then P1
      else if AI_VOICE_AGENT \<in> set aiCapabilities then P1
      else P2)
   \<and> detectPriority (pre @ ''acquisition'' @ post) aiCapabilities = P0"
proof
  show "detectPriority text aiCapabilities =
     (if (\<exists>p \<in> set P0_PATTERNS. regex_test p text) then P0
      else if (\<exists>p \<in> set P1_PATTERNS. regex_test p text) then P1
      else if AI_VOICE_AGENT \<in> set aiCapabilities then P1
      else P2)"
    by (simp only: detectPriority_def any_pattern_matches_iff)
  show "detectPriority (pre @ ''acquisition'' @ post) aiCapabilities = P0"
    unfolding detectPriority_def using acquisition_matches_P0 [of pre post]
    by (simp only: if_True)
qed

theorem detectPriority_cascade_witness:
  "detectPriority ''acquired beta'' [] = P0
   \<and> regex_test (lit ''beta'') ''acquired beta''
   \<and> detectPriority ''now in beta'' [] = P1
   \<and> detectPriority ''plain text'' [AI_CHAT_AGENT, AI_VOICE_AGENT] = P1
   \<and> detectPriority ''plain text'' [AI_CHAT_AGENT] = P2
   \<and> detectPriority (''the '' @ ''acquisition'' @ '' of a beta'') [] = P0"
  using detectPriority_cascade [of "''acquired beta''" "[]" "''the ''" "'' of a beta''"]
    detectPriority_cascade [of "''now in beta''" "[]"]
    detectPriority_cascade [of "''plain text''" "[AI_CHAT_AGENT, AI_VOICE_AGENT]"]
    detectPriority_cascade [of "''plain text''" "[AI_CHAT_AGENT]"]
  by (simp add: P0_PATTERNS_def P1_PATTERNS_def regex_test_def canonicalize_def)

section \<open>The generic-AI fallback\<close>

lemma collect_capabilities_none:
  "\<forall>entry \<in> set entries. \<forall>p \<in> set (snd entry). \<not> regex_test p text \<Longrightarrow>
   collect_capabilities entries text acc = acc"
  by (induction entries "text" acc rule: collect_capabilities.induct)
     (auto simp: any_pattern_matches_iff)

lemma collect_capabilities_mono:
  "set acc \<subseteq> set (collect_capabilities entries text acc)"
  by (induction entries "text" acc rule: collect_capabilities.induct)
     (auto simp: set_add_def split: if_splits)

lemma collect_capabilities_set:
  "set (collect_capabilities entries text acc) =
     set acc \<union> {c. \<exists>ps. (c, ps) \<in> set entries \<and> (\<exists>p \<in> set ps. regex_test p text)}"
  by (induction entries "text" acc rule: collect_capabilities.induct)
     (auto simp: set_add_def any_pattern_matches_iff)

lemma canonicalize_A: "canonicalize a = 65 \<Longrightarrow> is_word_char a"
  by (auto simp: canonicalize_def is_word_char_def Let_def split: if_splits)

lemma canonicalize_I: "canonicalize i = 73 \<Longrightarrow> is_word_char i"
  by (auto simp: canonicalize_def is_word_char_def Let_def split: if_splits)

lemma canon_lits: "canonicalize CHR ''a'' = 65" "canonicalize CHR ''i'' = 73"
  by (simp_all add: canonicalize_def)

lemma step_standalone:
  "step STANDALONE_AI (p, s) \<noteq> [] \<longleftrightarrow>
     (\<exists>a i post. s = a # i # post \<and> canonicalize a = 65 \<and> canonicalize i = 73
        \<and> \<not> is_word_at p \<and> \<not> is_word_at (next_char post))"
proof (cases s)
  case Nil
  then show ?thesis by (simp add: STANDALONE_AI_def)
next
  case (Cons a s1)
  show ?thesis
  proof (cases s1)
    case Nil
    with Cons show ?thesis by (auto simp: STANDALONE_AI_def canon_lits)
  next
    case (Cons i post)
    with \<open>s = a # s1\<close> show ?thesis
      by (auto simp: STANDALONE_AI_def canon_lits canonicalize_A canonicalize_I)
  qed
qed

lemma search_standalone:
  "search STANDALONE_AI p s \<longleftrightarrow>
     (\<exists>pre a i post. s = pre @ a # i # post \<and> canonicalize a = 65 \<and> canonicalize i = 73
        \<and> \<not> is_word_at (last_char p pre) \<and> \<not> is_word_at (next_char post))"
proof (induction s arbitrary: p)
  case Nil
  show ?case using step_standalone [of p "[]"] by simp
next
  case (Cons c s)
  show ?case (is "?L \<longleftrightarrow> ?R")
  proof
    assume ?L
    then consider "step STANDALONE_AI (p, c # s) \<noteq> []" | "search STANDALONE_AI (Some c) s"
      by auto
    then show ?R
    proof cases
      case 1
      then obtain a i post where "c # s = a # i # post" "canonicalize a = 65" "canonicalize i = 73"
        "\<not> is_word_at p" "\<not> is_word_at (next_char post)"
        unfolding step_standalone by blast
      then have "c # s = [] @ a # i # post \<and> canonicalize a = 65 \<and> canonicalize i = 73
        \<and> \<not> is_word_at (last_char p []) \<and> \<not> is_word_at (next_char post)" by simp
      then show ?thesis by blast
    next
      case 2
      then obtain pre a i post where "s = pre @ a # i # post" "canonicalize a = 65"
        "canonicalize i = 73" "\<not> is_word_at (last_char (Some c) pre)"
        "\<not> is_word_at (next_char post)"
        unfolding Cons.IH by blast
      then have "c # s = (c # pre) @ a # i # post \<and> canonicalize a = 65 \<and> canonicalize i = 73
        \<and> \<not> is_word_at (last_char p (c # pre)) \<and> \<not> is_word_at (next_char post)" by simp
      then show ?thesis by blast
    qed
  next
    assume ?R
    then obtain pre a i post where eq: "c # s = pre @ a # i # post" and ai: "canonicalize a = 65"
        "canonicalize i = 73" and b: "\<not> is_word_at (last_char p pre)"
        "\<not> is_word_at (next_char post)" by blast
    show ?L
    proof (cases pre)
      case Nil
      with eq ai b have "step STANDALONE_AI (p, c # s) \<noteq> []"
        unfolding step_standalone by auto
      then show ?thesis by simp
    next
      case (Cons d pre')
      with eq have "s = pre' @ a # i # post" and "d = c" by simp_all
      with ai b Cons have "search STANDALONE_AI (Some c) s" unfolding Cons.IH by auto
      then show ?thesis by simp
    qed
  qed
qed

lemma last_char_last: "last_char p pre = (if pre = [] then p else Some (last pre))"
  by (induction pre arbitrary: p) auto

lemma char_of_65: "char_of (65 :: nat) = CHR ''A''" by code_simp
lemma char_of_97: "char_of (97 :: nat) = CHR ''a''" by code_simp
lemma char_of_73: "char_of (73 :: nat) = CHR ''I''" by code_simp
lemma char_of_105: "char_of (105 :: nat) = CHR ''i''" by code_simp

lemma canonicalize_A_iff: "canonicalize a = 65 \<longleftrightarrow> a = CHR ''a'' \<or> a = CHR ''A''"
proof
  assume "canonicalize a = 65"
  then have "(of_char a :: nat) = 65 \<or> (of_char a :: nat) = 97"
    by (auto simp: canonicalize_def Let_def split: if_splits)
  then consider "(of_char a :: nat) = 65" | "(of_char a :: nat) = 97" by blast
  then show "a = CHR ''a'' \<or> a = CHR ''A''"
  proof cases
    case 1
    have "a = char_of (of_char a :: nat)" by simp
    also have "\<dots> = char_of (65 :: nat)" by (simp only: 1)
    finally show ?thesis by (simp only: char_of_65 simp_thms)
  next
    case 2
    have "a = char_of (of_char a :: nat)" by simp
    also have "\<dots> = char_of (97 :: nat)" by (simp only: 2)
    finally show ?thesis by (simp only: char_of_97 simp_thms)
  qed
next
  assume "a = CHR ''a'' \<or> a = CHR ''A''"
  then show "canonicalize a = 65" by (auto simp: canonicalize_def)
qed

lemma canonicalize_I_iff: "canonicalize i = 73 \<longleftrightarrow> i = CHR ''i'' \<or> i = CHR ''I''"
proof
  assume "canonicalize i = 73"
  then have "(of_char i :: nat) = 73 \<or> (of_char i :: nat) = 105"
    by (auto simp: canonicalize_def Let_def split: if_splits)
  then consider "(of_char i :: nat) = 73" | "(of_char i :: nat) = 105" by blast
  then show "i = CHR ''i'' \<or> i = CHR ''I''"
  proof cases
    case 1
    have "i = char_of (of_char i :: nat)" by simp
    also have "\<dots> = char_of (73 :: nat)" by (simp only: 1)
    finally show ?thesis by (simp only: char_of_73 simp_thms)
  next
    case 2
    have "i = char_of (of_char i :: nat)" by simp
    also have "\<dots> = char_of (105 :: nat)" by (simp only: 2)
    finally show ?thesis by (simp only: char_of_105 simp_thms)
  qed
next
  assume "i = CHR ''i'' \<or> i = CHR ''I''"
  then show "canonicalize i = 73" by (auto simp: canonicalize_def)
qed

lemma standalone_ai_iff:
  "regex_test STANDALONE_AI text \<longleftrightarrow>
     (\<exists>pre a i post. text = pre @ a # i # post
        \<and> (a = CHR ''a'' \<or> a = CHR ''A'') \<and> (i = CHR ''i'' \<or> i = CHR ''I'')
        \<and> (pre = [] \<or> \<not> is_word_char (last pre))
        \<and> (post = [] \<or> \<not> is_word_char (hd post)))"
proof -
  have n: "\<not> is_word_at (next_char post) \<longleftrightarrow> post = [] \<or> \<not> is_word_char (hd post)" for post
    by (cases post) auto
  have l: "\<not> is_word_at (last_char None pre) \<longleftrightarrow> pre = [] \<or> \<not> is_word_char (last pre)" for pre
    by (simp add: last_char_last)
  show ?thesis
    unfolding regex_test_def search_standalone canonicalize_A_iff canonicalize_I_iff n l ..
qed

text \<open>
  C6. The pattern \<^verbatim>\<open>/\bai\b/i\<close> matches exactly the texts in which the letters "ai", in
  either case, occur with no word character directly before or after them. A text that
  matches none of the capability patterns but contains this standalone token gets
  exactly the workflow-automation tag; hence a text with a standalone "ai" never ends up
  without a tag.
\<close>

theorem detectAICapabilities_fallback:
  "(regex_test STANDALONE_AI text \<longleftrightarrow>
     (\<exists>pre a i post. text = pre @ a # i # post
        \<and> (a = CHR ''a'' \<or> a = CHR ''A'') \<and> (i = CHR ''i'' \<or> i = CHR ''I'')
        \<and> (pre = [] \<or> \<not> is_word_char (last pre))
        \<and> (post = [] \<or> \<not> is_word_char (hd post))))
   \<and> (regex_test STANDALONE_AI text
        \<and> (\<forall>entry \<in> set AI_CAPABILITY_PATTERNS. \<forall>p \<in> set (snd entry). \<not> regex_test p text)
        \<longrightarrow> detectAICapabilities text = [AI_WORKFLOW_AUTOMATION])
   \<and> (regex_test STANDALONE_AI text \<longrightarrow> detectAICapabilities text \<noteq> [])"
proof (intro conjI impI)
  show "regex_test STANDALONE_AI text \<longleftrightarrow>
     (\<exists>pre a i post. text = pre @ a # i # post
        \<and> (a = CHR ''a'' \<or> a = CHR ''A'') \<and> (i = CHR ''i'' \<or> i = CHR ''I'')
        \<and> (pre = [] \<or> \<not> is_word_char (last pre))
        \<and> (post = [] \<or> \<not> is_word_char (hd post)))"
    by (rule standalone_ai_iff)
next
  assume "regex_test STANDALONE_AI text
        \<and> (\<forall>entry \<in> set AI_CAPABILITY_PATTERNS. \<forall>p \<in> set (snd entry). \<not> regex_test p text)"
  then show "detectAICapabilities text = [AI_WORKFLOW_AUTOMATION]"
    by (simp add: detectAICapabilities_def collect_capabilities_none set_add_def)
next
  assume "regex_test STANDALONE_AI text"
  then show "detectAICapabilities text \<noteq> []"
    by (auto simp: detectAICapabilities_def Let_def set_add_def)
qed

lemma standalone_ai_example: "regex_test STANDALONE_AI ''We use AI daily''"
  by (simp add: STANDALONE_AI_def regex_test_def canonicalize_def is_word_char_def)

lemma no_capability_pattern_example: "\<forall>entry \<in> set AI_CAPABILITY_PATTERNS. \<forall>p \<in> set (snd entry). \<not> regex_test p ''We use AI daily''"
  by code_simp

theorem detectAICapabilities_fallback_witness:
  "regex_test STANDALONE_AI ''We use AI daily''
   \<and> list_all (\<lambda>entry. list_all (\<lambda>p. \<not> regex_test p ''We use AI daily'') (snd entry))
         AI_CAPABILITY_PATTERNS
   \<and> detectAICapabilities ''We use AI daily'' = [AI_WORKFLOW_AUTOMATION]"
  using detectAICapabilities_fallback [of "''We use AI daily''"]
    standalone_ai_example no_capability_pattern_example
  unfolding list_all_iff by blast

section \<open>Competitor detection is first match\<close>


lemma str_includes_iff: "str_includes s t \<longleftrightarrow> (\<exists>pre post. s = pre @ t @ post)"
proof (induction s)
  case Nil
  then show ?case by auto
next
  case (Cons c s)
  show ?case
  proof
    assume "str_includes (c # s) t"
    then consider "prefix t (c # s)" | "str_includes s t" by auto
    then show "\<exists>pre post. c # s = pre @ t @ post"
    proof cases
      case 1
      then obtain post where "c # s = t @ post" by (auto simp: prefix_def)
      then have "c # s = [] @ t @ post" by simp
      then show ?thesis by blast
    next
      case 2
      with Cons.IH obtain pre post where "s = pre @ t @ post" by blast
      then have "c # s = (c # pre) @ t @ post" by simp
      then show ?thesis by blast
    qed
  next
    assume "\<exists>pre post. c # s = pre @ t @ post"
    then obtain pre post where eq: "c # s = pre @ t @ post" by blast
    show "str_includes (c # s) t"
    proof (cases pre)
      case Nil
      with eq have "prefix t (c # s)" by (simp add: prefix_def)
      then show ?thesis by simp
    next
      case (Cons d pre')
      with eq have "s = pre' @ t @ post" by simp
      with Cons.IH have "str_includes s t" by blast
      then show ?thesis by simp
    qed
  qed
qed








section \<open>Verification status\<close>

lemma two_names:
  "2 \<le> length (remdups xs) \<longleftrightarrow> (\<exists>a \<in> set xs. \<exists>b \<in> set xs. a \<noteq> b)"
proof -
  have "2 \<le> card (set xs) \<longleftrightarrow> (\<exists>a \<in> set xs. \<exists>b \<in> set xs. a \<noteq> b)"
  proof
    assume "2 \<le> card (set xs)"
    then obtain a b where "a \<in> set xs" "b \<in> set xs" "a \<noteq> b"
      by (metis card_2_iff' obtain_subset_with_card_n subset_iff)
    then show "\<exists>a \<in> set xs. \<exists>b \<in> set xs. a \<noteq> b" by blast
  next
    assume "\<exists>a \<in> set xs. \<exists>b \<in> set xs. a \<noteq> b"
    then obtain a b where ab: "a \<in> set xs" "b \<in> set xs" "a \<noteq> b" by blast
    then have "{a, b} \<subseteq> set xs" by simp
    then have "card {a, b} \<le> card (set xs)" by (intro card_mono) auto
    with ab show "2 \<le> card (set xs)" by simp
  qed
  then show ?thesis by (simp add: length_remdups_card_conv)
qed

lemma verification_rule:
  "determineVerificationStatus items hasAIClaims =
     (if \<not> hasAIClaims then VERIFIED
      else if (\<exists>i \<in> set items. trustTier (source i) = HIGH)
              \<or> (\<exists>i \<in> set items. \<exists>j \<in> set items.
                    source_name (source i) \<noteq> source_name (source j))
           then VERIFIED else CLAIM_UNVERIFIED)"
  by (auto simp: determineVerificationStatus_def Let_def list_ex_iff two_names)

text \<open>
  C2. \<^verbatim>\<open>analyzeCluster\<close> passes \<^verbatim>\<open>aiCapabilities.length > 0\<close> as \<open>hasAIClaims\<close>. With no
  detected capability the status is VERIFIED. With at least one, it is VERIFIED exactly
  when some item's source has HIGH trust or two items carry different source names, and
  CLAIM_UNVERIFIED otherwise. A cluster whose items are all LOW trust from one source
  name, with one capability tag, is CLAIM_UNVERIFIED, and one more item from a source of
  another name (whatever its trust tier) makes it VERIFIED.
\<close>

theorem determineVerificationStatus_rule:
  "determineVerificationStatus items (length aiCapabilities > 0) =
     (if aiCapabilities = [] then VERIFIED
      else if (\<exists>i \<in> set items. trustTier (source i) = HIGH)
              \<or> (\<exists>i \<in> set items. \<exists>j \<in> set items.
                    source_name (source i) \<noteq> source_name (source j))
           then VERIFIED else CLAIM_UNVERIFIED)
   \<and> ((\<forall>i \<in> set items. trustTier (source i) = LOW \<and> source_name (source i) = n)
        \<longrightarrow> determineVerificationStatus items (length [capability] > 0) = CLAIM_UNVERIFIED
            \<and> (source_name (source extra) \<noteq> n \<and> items \<noteq> []
                 \<longrightarrow> determineVerificationStatus (items @ [extra]) (length [capability] > 0)
                       = VERIFIED))"
proof
  show "determineVerificationStatus items (length aiCapabilities > 0) =
     (if aiCapabilities = [] then VERIFIED
      else if (\<exists>i \<in> set items. trustTier (source i) = HIGH)
              \<or> (\<exists>i \<in> set items. \<exists>j \<in> set items.
                    source_name (source i) \<noteq> source_name (source j))
           then VERIFIED else CLAIM_UNVERIFIED)"
    by (simp add: verification_rule)
  show "(\<forall>i \<in> set items. trustTier (source i) = LOW \<and> source_name (source i) = n)
        \<longrightarrow> determineVerificationStatus items (length [capability] > 0) = CLAIM_UNVERIFIED
            \<and> (source_name (source extra) \<noteq> n \<and> items \<noteq> []
                 \<longrightarrow> determineVerificationStatus (items @ [extra]) (length [capability] > 0)
                       = VERIFIED)"
  proof (intro impI conjI)
    assume a: "\<forall>i \<in> set items. trustTier (source i) = LOW \<and> source_name (source i) = n"
    then show "determineVerificationStatus items (length [capability] > 0) = CLAIM_UNVERIFIED"
      by (simp add: verification_rule)
    assume b: "source_name (source extra) \<noteq> n \<and> items \<noteq> []"
    then obtain i where "i \<in> set items" by (cases items) auto
    with a b have "\<exists>i \<in> set (items @ [extra]). \<exists>j \<in> set (items @ [extra]).
                    source_name (source i) \<noteq> source_name (source j)"
      by (metis Un_iff list.set_intros(1) set_append)
    then show "determineVerificationStatus (items @ [extra]) (length [capability] > 0) = VERIFIED"
      by (simp only: verification_rule) simp
  qed
qed

theorem determineVerificationStatus_rule_witness:
  "determineVerificationStatus
      [\<lparr>item_id = 1, url = ''u1'', title = None, rawText = Some ''ai chat'',
        source = \<lparr>trustTier = LOW, source_name = ''Blog A''\<rparr>\<rparr>] (length [AI_CHAT_AGENT] > 0)
     = CLAIM_UNVERIFIED
   \<and> determineVerificationStatus
      ([\<lparr>item_id = 1, url = ''u1'', title = None, rawText = Some ''ai chat'',
        source = \<lparr>trustTier = LOW, source_name = ''Blog A''\<rparr>\<rparr>] @
       [\<lparr>item_id = 2, url = ''u2'', title = None, rawText = Some ''ai chat'',
        source = \<lparr>trustTier = LOW, source_name = ''Blog B''\<rparr>\<rparr>]) (length [AI_CHAT_AGENT] > 0)
     = VERIFIED"
  using determineVerificationStatus_rule
     [where items = "[\<lparr>item_id = 1, url = ''u1'', title = None, rawText = Some ''ai chat'',
        source = \<lparr>trustTier = LOW, source_name = ''Blog A''\<rparr>\<rparr>]"
        and n = "''Blog A''" and capability = AI_CHAT_AGENT
        and extra = "\<lparr>item_id = 2, url = ''u2'', title = None, rawText = Some ''ai chat'',
        source = \<lparr>trustTier = LOW, source_name = ''Blog B''\<rparr>\<rparr>"
        and aiCapabilities = "[]"]
  by simp

section \<open>Confidence score\<close>

lemma Math_round_nearest: "\<bar>of_int (Math_round x) - x\<bar> \<le> 1 / 2"
  unfolding Math_round_def by linarith

lemma confidence_score_formula:
  "confidence_score items status =
     3 + (if 2 \<le> length (filter (\<lambda>i. trustTier (source i) = HIGH) items) then 1 else 0)
       + (if 1 \<le> length (filter (\<lambda>i. trustTier (source i) = HIGH) items) then 1 / 2 else 0)
       + (if 2 \<le> length (filter (\<lambda>i. trustTier (source i) = MEDIUM) items) then 1 / 2 else 0)
       + (if status = VERIFIED then 1 else 0)
       - (if status = CLAIM_UNVERIFIED then 1 / 2 else 0)
       + (if 3 \<le> length items then 1 / 2 else 0)"
  by (simp add: confidence_score_def highTrustCount_def mediumTrustCount_def Let_def)

lemma confidence_score_lower: "5 / 2 \<le> confidence_score items status"
  unfolding confidence_score_formula by (cases status) auto

lemma Math_round_mono: "x \<le> y \<Longrightarrow> Math_round x \<le> Math_round y"
  unfolding Math_round_def by (simp add: floor_mono)

lemma Math_round_lower: "3 \<le> Math_round (confidence_score items status)"
proof -
  have "Math_round (5 / 2) \<le> Math_round (confidence_score items status)"
    by (rule Math_round_mono [OF confidence_score_lower])
  moreover have "Math_round (5 / 2) = 3" unfolding Math_round_def by simp
  ultimately show ?thesis by simp
qed

text \<open>
  C3. The confidence is the base 3, plus 1 for two or more HIGH items, plus one half for
  one or more HIGH items, plus one half for two or more MEDIUM items, plus 1 for
  VERIFIED, minus one half for CLAIM_UNVERIFIED, plus one half for three or more items,
  rounded to the nearest integer (no integer is nearer than the one \<^verbatim>\<open>Math.round\<close>
  returns) and clamped to 1..5. The result always lies in 1..5;
  with two or more HIGH items, VERIFIED and three or more items the score before
  rounding is at least 6 and the result is 5.
\<close>

theorem calculateConfidence_formula:
  "calculateConfidence items status =
     min 5 (max 1 (Math_round
       (3 + (if 2 \<le> length (filter (\<lambda>i. trustTier (source i) = HIGH) items) then 1 else 0)
          + (if 1 \<le> length (filter (\<lambda>i. trustTier (source i) = HIGH) items) then 1 / 2 else 0)
          + (if 2 \<le> length (filter (\<lambda>i. trustTier (source i) = MEDIUM) items) then 1 / 2 else 0)
          + (if status = VERIFIED then 1 else 0)
          - (if status = CLAIM_UNVERIFIED then 1 / 2 else 0)
          + (if 3 \<le> length items then 1 / 2 else 0))))
   \<and> 1 \<le> calculateConfidence items status \<and> calculateConfidence items status \<le> 5
   \<and> (2 \<le> length (filter (\<lambda>i. trustTier (source i) = HIGH) items)
        \<and> status = VERIFIED \<and> 3 \<le> length items
        \<longrightarrow> 6 \<le> confidence_score items status \<and> calculateConfidence items status = 5)
   \<and> \<bar>of_int (Math_round x) - x\<bar> \<le> 1 / 2"
proof (intro conjI)
  show "\<bar>of_int (Math_round x) - x\<bar> \<le> 1 / 2" by (rule Math_round_nearest)
  show "calculateConfidence items status =
     min 5 (max 1 (Math_round
       (3 + (if 2 \<le> length (filter (\<lambda>i. trustTier (source i) = HIGH) items) then 1 else 0)
          + (if 1 \<le> length (filter (\<lambda>i. trustTier (source i) = HIGH) items) then 1 / 2 else 0)
          + (if 2 \<le> length (filter (\<lambda>i. trustTier (source i) = MEDIUM) items) then 1 / 2 else 0)
          + (if status = VERIFIED then 1 else 0)
          - (if status = CLAIM_UNVERIFIED then 1 / 2 else 0)
          + (if 3 \<le> length items then 1 / 2 else 0))))"
    by (simp only: calculateConfidence_def confidence_score_formula)
  show "1 \<le> calculateConfidence items status" by (simp add: calculateConfidence_def)
  show "calculateConfidence items status \<le> 5" by (simp add: calculateConfidence_def)
  show "2 \<le> length (filter (\<lambda>i. trustTier (source i) = HIGH) items)
        \<and> status = VERIFIED \<and> 3 \<le> length items
        \<longrightarrow> 6 \<le> confidence_score items status \<and> calculateConfidence items status = 5"
  proof
    assume a: "2 \<le> length (filter (\<lambda>i. trustTier (source i) = HIGH) items)
        \<and> status = VERIFIED \<and> 3 \<le> length items"
    then have s6: "6 \<le> confidence_score items status"
      unfolding confidence_score_formula by auto
    have "Math_round 6 \<le> Math_round (confidence_score items status)"
      by (rule Math_round_mono [OF s6])
    moreover have "Math_round 6 = 6" unfolding Math_round_def by linarith
    ultimately have "calculateConfidence items status = 5"
      by (simp add: calculateConfidence_def)
    with s6 show "6 \<le> confidence_score items status \<and> calculateConfidence items status = 5"
      by simp
  qed
qed

theorem calculateConfidence_formula_witness:
  "calculateConfidence
     [\<lparr>item_id = 1, url = ''u1'', title = None, rawText = None,
        source = \<lparr>trustTier = HIGH, source_name = ''A''\<rparr>\<rparr>,
      \<lparr>item_id = 2, url = ''u2'', title = None, rawText = None,
        source = \<lparr>trustTier = HIGH, source_name = ''B''\<rparr>\<rparr>,
      \<lparr>item_id = 3, url = ''u3'', title = None, rawText = None,
        source = \<lparr>trustTier = HIGH, source_name = ''C''\<rparr>\<rparr>,
      \<lparr>item_id = 4, url = ''u4'', title = None, rawText = None,
        source = \<lparr>trustTier = HIGH, source_name = ''D''\<rparr>\<rparr>,
      \<lparr>item_id = 5, url = ''u5'', title = None, rawText = None,
        source = \<lparr>trustTier = HIGH, source_name = ''E''\<rparr>\<rparr>] VERIFIED = 5"
proof -
  let ?items =
    "[\<lparr>item_id = 1, url = ''u1'', title = None, rawText = None,
        source = \<lparr>trustTier = HIGH, source_name = ''A''\<rparr>\<rparr>,
      \<lparr>item_id = 2, url = ''u2'', title = None, rawText = None,
        source = \<lparr>trustTier = HIGH, source_name = ''B''\<rparr>\<rparr>,
      \<lparr>item_id = 3, url = ''u3'', title = None, rawText = None,
        source = \<lparr>trustTier = HIGH, source_name = ''C''\<rparr>\<rparr>,
      \<lparr>item_id = 4, url = ''u4'', title = None, rawText = None,
        source = \<lparr>trustTier = HIGH, source_name = ''D''\<rparr>\<rparr>,
      \<lparr>item_id = 5, url = ''u5'', title = None, rawText = None,
        source = \<lparr>trustTier = HIGH, source_name = ''E''\<rparr>\<rparr>]"
  have h: "2 \<le> length (filter (\<lambda>i. trustTier (source i) = HIGH) ?items)
           \<and> VERIFIED = VERIFIED \<and> 3 \<le> length ?items"
    by simp
  from calculateConfidence_formula [where status = VERIFIED and items = ?items] h
  show ?thesis by blast
qed

text \<open>
  C10. The score before rounding is never below 2.5, so the lower clamp never binds and
  the confidence is always 3, 4 or 5; each of the three values is reached.
\<close>

theorem calculateConfidence_at_least_3:
  "5 / 2 \<le> confidence_score items status
   \<and> max 1 (Math_round (confidence_score items status))
        = Math_round (confidence_score items status)
   \<and> calculateConfidence items status \<in> {3, 4, 5}
   \<and> calculateConfidence ([] :: RawItemWithSource list) CLAIM_UNVERIFIED = 3
   \<and> calculateConfidence ([] :: RawItemWithSource list) VERIFIED = 4
   \<and> calculateConfidence
        [\<lparr>item_id = 1, url = ''u1'', title = None, rawText = None,
           source = \<lparr>trustTier = HIGH, source_name = ''A''\<rparr>\<rparr>] VERIFIED = 5"
proof (intro conjI)
  show "5 / 2 \<le> confidence_score items status" by (rule confidence_score_lower)
  show "max 1 (Math_round (confidence_score items status))
        = Math_round (confidence_score items status)"
    using Math_round_lower [of items status] by simp
  show "calculateConfidence items status \<in> {3, 4, 5}"
    using Math_round_lower [of items status] by (auto simp: calculateConfidence_def)
  show "calculateConfidence ([] :: RawItemWithSource list) CLAIM_UNVERIFIED = 3"
    by (simp add: calculateConfidence_def confidence_score_formula Math_round_def floor_eq_iff)
  show "calculateConfidence ([] :: RawItemWithSource list) VERIFIED = 4"
    by (simp add: calculateConfidence_def confidence_score_formula Math_round_def floor_eq_iff)
  show "calculateConfidence
        [\<lparr>item_id = 1, url = ''u1'', title = None, rawText = None,
           source = \<lparr>trustTier = HIGH, source_name = ''A''\<rparr>\<rparr>] VERIFIED = 5"
    by (simp add: calculateConfidence_def confidence_score_formula Math_round_def floor_eq_iff)
qed

section \<open>Clustering: links, counts and processed flags\<close>

lemma evolves_refl: "evolves rows rows"
  by (auto simp: evolves_def)

lemma evolves_trans: "evolves a b \<Longrightarrow> evolves b c \<Longrightarrow> evolves a c"
  unfolding evolves_def
proof
  fix r'' assume ab: "\<forall>r' \<in> set b. \<exists>r \<in> set a. r' = r \<or> r' = r\<lparr>processed := True\<rparr>"
    and bc: "\<forall>r' \<in> set c. \<exists>r \<in> set b. r' = r \<or> r' = r\<lparr>processed := True\<rparr>"
    and "r'' \<in> set c"
  then obtain r' where r': "r' \<in> set b" "r'' = r' \<or> r'' = r'\<lparr>processed := True\<rparr>" by blast
  with ab obtain r where r: "r \<in> set a" "r' = r \<or> r' = r\<lparr>processed := True\<rparr>" by blast
  from r' r have "r'' = r \<or> r'' = r\<lparr>processed := True\<rparr>" by auto
  with r show "\<exists>r \<in> set a. r'' = r \<or> r'' = r\<lparr>processed := True\<rparr>" by blast
qed

lemma evolves_mark: "evolves rows (mark_processed i rows)"
  by (auto simp: evolves_def mark_processed_def)

lemma all_done_mark:
  "all_done ids rows \<Longrightarrow> all_done (insert i ids) (mark_processed i rows)"
  by (auto simp: all_done_def mark_processed_def)

lemma find_SomeD: "find P xs = Some x \<Longrightarrow> P x \<and> x \<in> set xs"
  by (induction xs) (auto split: if_splits)

text \<open>What one pass of the inner loop body does.\<close>

lemma link_item_clusters [simp]:
  "storyClusters (db (link_item cid item st)) = storyClusters (db st)"
  "nextId (db (link_item cid item st)) = nextId (db st)"
  "clustersCreated (link_item cid item st) = clustersCreated st"
  by (simp_all add: link_item_def Let_def split: option.splits)

lemma link_item_rows [simp]:
  "rawItems (db (link_item cid item st)) = mark_processed (item_id item) (rawItems (db st))"
  by (simp add: link_item_def Let_def split: option.splits)

lemma link_item_links:
  "storyItemLinks (db (link_item cid item st)) =
     (if \<exists>l \<in> set (storyItemLinks (db st)). clusterId l = cid \<and> rawItemId l = item_id item
      then storyItemLinks (db st)
      else storyItemLinks (db st) @ [\<lparr>clusterId = cid, rawItemId = item_id item\<rparr>])"
  by (auto simp: link_item_def Let_def find_None_iff split: option.splits dest: find_SomeD)

lemma link_item_count:
  "length (storyItemLinks (db (link_item cid item st))) + itemsLinked st =
     length (storyItemLinks (db st)) + itemsLinked (link_item cid item st)"
  by (auto simp: link_item_def Let_def split: option.splits)

lemma link_item_distinct:
  "distinct (storyItemLinks (db st)) \<Longrightarrow> distinct (storyItemLinks (db (link_item cid item st)))"
  by (auto simp: link_item_links)

lemma link_item_has:
  "\<exists>l \<in> set (storyItemLinks (db (link_item cid item st))).
      clusterId l = cid \<and> rawItemId l = item_id item"
  by (auto simp: link_item_links)

lemma link_item_keeps:
  "set (storyItemLinks (db st)) \<subseteq> set (storyItemLinks (db (link_item cid item st)))"
  by (auto simp: link_item_links)

lemma link_items_clusters [simp]:
  "storyClusters (db (link_items cid items st)) = storyClusters (db st)"
  "nextId (db (link_items cid items st)) = nextId (db st)"
  "clustersCreated (link_items cid items st) = clustersCreated st"
  by (induction items arbitrary: st) simp_all

lemma link_items_evolves: "evolves (rawItems (db st)) (rawItems (db (link_items cid items st)))"
proof (induction items arbitrary: st)
  case Nil
  show ?case by (simp add: evolves_refl)
next
  case (Cons item items)
  have "evolves (rawItems (db st)) (rawItems (db (link_item cid item st)))"
    by (simp add: evolves_mark)
  then show ?case using Cons [of "link_item cid item st"] by (auto intro: evolves_trans)
qed

lemma link_items_done:
  "all_done ids (rawItems (db st)) \<Longrightarrow>
   all_done (ids \<union> item_id ` set items) (rawItems (db (link_items cid items st)))"
proof (induction items arbitrary: st ids)
  case Nil
  then show ?case by simp
next
  case (Cons item items)
  have "all_done (insert (item_id item) ids) (rawItems (db (link_item cid item st)))"
    using Cons.prems by (simp add: all_done_mark)
  from Cons.IH [OF this] show ?case by simp
qed

lemma link_items_count:
  "length (storyItemLinks (db (link_items cid items st))) + itemsLinked st =
     length (storyItemLinks (db st)) + itemsLinked (link_items cid items st)"
proof (induction items arbitrary: st)
  case Nil
  show ?case by simp
next
  case (Cons item items)
  show ?case using Cons [of "link_item cid item st"] link_item_count [of cid item st] by simp
qed

lemma link_items_distinct:
  "distinct (storyItemLinks (db st)) \<Longrightarrow> distinct (storyItemLinks (db (link_items cid items st)))"
  by (induction items arbitrary: st) (simp_all add: link_item_distinct)

lemma link_items_keeps:
  "set (storyItemLinks (db st)) \<subseteq> set (storyItemLinks (db (link_items cid items st)))"
proof (induction items arbitrary: st)
  case Nil
  show ?case by simp
next
  case (Cons item items)
  show ?case using Cons [of "link_item cid item st"] link_item_keeps [of st cid item] by auto
qed

lemma link_items_has:
  "item \<in> set items \<Longrightarrow>
   \<exists>l \<in> set (storyItemLinks (db (link_items cid items st))).
      clusterId l = cid \<and> rawItemId l = item_id item"
proof (induction items arbitrary: st)
  case Nil
  then show ?case by simp
next
  case (Cons x items)
  show ?case
  proof (cases "item = x")
    case True
    obtain l where "l \<in> set (storyItemLinks (db (link_item cid x st)))"
      "clusterId l = cid \<and> rawItemId l = item_id x"
      using link_item_has [of cid x st] by blast
    with True show ?thesis
      using link_items_keeps [of "link_item cid x st" cid items] by auto
  next
    case False
    with Cons.prems have "item \<in> set items" by simp
    from Cons.IH [OF this] show ?thesis by simp
  qed
qed

text \<open>Find or create.\<close>

lemma recent_cluster_for_iff:
  "recent_cluster_for k now c \<longleftrightarrow>
     (\<exists>pre post. canonicalTitle c = pre @ k @ post) \<and> now - 86400000 \<le> createdAt c"
  by (simp add: recent_cluster_for_def DAY_MS_def str_includes_iff)

lemma resolve_cluster_other [simp]:
  "rawItems (db (snd (resolve_cluster today now k items st))) = rawItems (db st)"
  "storyItemLinks (db (snd (resolve_cluster today now k items st))) = storyItemLinks (db st)"
  "itemsLinked (snd (resolve_cluster today now k items st)) = itemsLinked st"
  by (simp_all add: resolve_cluster_def Let_def split: option.splits)

lemma resolve_cluster_count:
  "length (storyClusters (db (snd (resolve_cluster today now k items st)))) + clustersCreated st =
     length (storyClusters (db st)) + clustersCreated (snd (resolve_cluster today now k items st))"
  by (simp add: resolve_cluster_def Let_def split: option.splits)

lemma process_group_snd:
  "process_group today now (k, items) st =
     (if items = [] then st
      else link_items (fst (resolve_cluster today now k items st)) items
             (snd (resolve_cluster today now k items st)))"
  by (simp add: process_group_def split: prod.splits)

lemma process_group_evolves:
  "evolves (rawItems (db st)) (rawItems (db (process_group today now g st)))"
proof (cases g)
  case (Pair k items)
  show ?thesis unfolding Pair process_group_snd
    using link_items_evolves [of "snd (resolve_cluster today now k items st)"
        "fst (resolve_cluster today now k items st)" items]
    by (simp add: evolves_refl)
qed

lemma process_group_done:
  assumes "all_done ids (rawItems (db st))"
  shows "all_done (ids \<union> item_id ` set (snd g)) (rawItems (db (process_group today now g st)))"
proof (cases g)
  case (Pair k items)
  have "all_done ids (rawItems (db (snd (resolve_cluster today now k items st))))"
    using assms by simp
  from link_items_done [OF this, where cid = "fst (resolve_cluster today now k items st)"
      and items = items]
  show ?thesis unfolding Pair process_group_snd using assms by simp
qed

lemma process_group_links_count:
  "length (storyItemLinks (db (process_group today now g st))) + itemsLinked st =
     length (storyItemLinks (db st)) + itemsLinked (process_group today now g st)"
proof (cases g)
  case (Pair k items)
  show ?thesis unfolding Pair process_group_snd
    using link_items_count [of "fst (resolve_cluster today now k items st)" items
        "snd (resolve_cluster today now k items st)"]
    by simp
qed

lemma process_group_clusters_count:
  "length (storyClusters (db (process_group today now g st))) + clustersCreated st =
     length (storyClusters (db st)) + clustersCreated (process_group today now g st)"
proof (cases g)
  case (Pair k items)
  show ?thesis unfolding Pair process_group_snd
    using resolve_cluster_count [of today now k items st] by simp
qed

lemma process_group_distinct:
  "distinct (storyItemLinks (db st)) \<Longrightarrow>
   distinct (storyItemLinks (db (process_group today now g st)))"
proof (cases g)
  case (Pair k items)
  assume "distinct (storyItemLinks (db st))"
  then have "distinct (storyItemLinks (db (snd (resolve_cluster today now k items st))))" by simp
  from link_items_distinct [OF this] show ?thesis unfolding Pair process_group_snd
    using \<open>distinct (storyItemLinks (db st))\<close> by simp
qed

text \<open>All groups of a run.\<close>

lemma process_groups_evolves:
  "evolves (rawItems (db st)) (rawItems (db (process_groups today now gs st)))"
proof (induction gs arbitrary: st)
  case Nil
  show ?case by (simp add: evolves_refl)
next
  case (Cons g gs)
  show ?case
    using process_group_evolves [of st today now g] Cons [of "process_group today now g st"]
    by (auto intro: evolves_trans)
qed

lemma process_groups_done:
  "all_done ids (rawItems (db st)) \<Longrightarrow>
   all_done (ids \<union> item_id ` (\<Union>g \<in> set gs. set (snd g)))
     (rawItems (db (process_groups today now gs st)))"
proof (induction gs arbitrary: st ids)
  case Nil
  then show ?case by simp
next
  case (Cons g gs)
  have "all_done (ids \<union> item_id ` set (snd g)) (rawItems (db (process_group today now g st)))"
    using Cons.prems by (rule process_group_done)
  from Cons.IH [OF this]
  show ?case by (simp add: image_Un Un_assoc)
qed

lemma process_groups_links_count:
  "length (storyItemLinks (db (process_groups today now gs st))) + itemsLinked st =
     length (storyItemLinks (db st)) + itemsLinked (process_groups today now gs st)"
proof (induction gs arbitrary: st)
  case Nil
  show ?case by simp
next
  case (Cons g gs)
  show ?case
    using Cons [of "process_group today now g st"] process_group_links_count [of today now g st]
    by simp
qed

lemma process_groups_clusters_count:
  "length (storyClusters (db (process_groups today now gs st))) + clustersCreated st =
     length (storyClusters (db st)) + clustersCreated (process_groups today now gs st)"
proof (induction gs arbitrary: st)
  case Nil
  show ?case by simp
next
  case (Cons g gs)
  show ?case
    using Cons [of "process_group today now g st"]
      process_group_clusters_count [of today now g st]
    by simp
qed

lemma process_groups_distinct:
  "distinct (storyItemLinks (db st)) \<Longrightarrow>
   distinct (storyItemLinks (db (process_groups today now gs st)))"
  by (induction gs arbitrary: st) (simp_all add: process_group_distinct)

lemma group_push_items:
  "(\<Union>g \<in> set (group_push gs k item). set (snd g)) = insert item (\<Union>g \<in> set gs. set (snd g))"
  by (induction gs k item rule: group_push.induct) auto

lemma group_items_items:
  "(\<Union>g \<in> set (group_items cs items gs). set (snd g)) = set items \<union> (\<Union>g \<in> set gs. set (snd g))"
  by (induction items arbitrary: gs) (simp_all add: group_push_items)

lemma job_done:
  "all_done (item_id ` set (unprocessedItems d))
     (rawItems (db (dedupeAndClusterJob cs today now d)))"
proof -
  have "all_done {} (rawItems (db \<lparr>db = d, clustersCreated = 0, itemsLinked = 0\<rparr>))"
    by (simp add: all_done_def)
  from process_groups_done [OF this, where gs = "group_items cs (unprocessedItems d) []"]
  show ?thesis by (simp add: dedupeAndClusterJob_def group_items_items)
qed

lemma job_evolves: "evolves (rawItems d) (rawItems (db (dedupeAndClusterJob cs today now d)))"
  using process_groups_evolves [of "\<lparr>db = d, clustersCreated = 0, itemsLinked = 0\<rparr>"]
  by (simp add: dedupeAndClusterJob_def)

lemma job_empty_batch:
  "unprocessedItems d = [] \<Longrightarrow>
   dedupeAndClusterJob cs today now d = \<lparr>db = d, clustersCreated = 0, itemsLinked = 0\<rparr>"
  by (simp add: dedupeAndClusterJob_def)

lemma job_drains:
  assumes "length (filter eligible (rawItems d)) \<le> 100"
  shows "unprocessedItems (db (dedupeAndClusterJob cs today now d)) = []"
proof -
  let ?rows = "rawItems (db (dedupeAndClusterJob cs today now d))"
  have batch: "unprocessedItems d = filter eligible (rawItems d)"
    using assms by (simp add: unprocessedItems_def)
  have "\<not> eligible r'" if "r' \<in> set ?rows" for r'
  proof
    assume e: "eligible r'"
    from job_evolves [of d cs today now] that
    obtain r where r: "r \<in> set (rawItems d)" "r' = r \<or> r' = r\<lparr>processed := True\<rparr>"
      unfolding evolves_def by blast
    with e have "r' = r" by (auto simp: eligible_def)
    with r e have "r' \<in> set (unprocessedItems d)" by (simp add: batch)
    then have "item_id r' \<in> item_id ` set (unprocessedItems d)" by blast
    with job_done [of d cs today now] that have "processed r'" unfolding all_done_def by blast
    with e show False by (simp add: eligible_def)
  qed
  then have "filter eligible ?rows = []" by (simp add: filter_empty_conv)
  then show ?thesis by (simp add: unprocessedItems_def)
qed

lemma next_batch_disjoint:
  assumes "item \<in> set (unprocessedItems (db (dedupeAndClusterJob cs today now d)))"
  shows "item_id item \<notin> item_id ` set (unprocessedItems d)"
proof
  assume "item_id item \<in> item_id ` set (unprocessedItems d)"
  moreover from assms have "item \<in> set (rawItems (db (dedupeAndClusterJob cs today now d)))"
    and "eligible item"
    by (auto simp: unprocessedItems_def dest: in_set_takeD)
  ultimately show False using job_done [of d cs today now]
    by (auto simp: all_done_def eligible_def)
qed

lemma resolve_cluster_found:
  assumes "find (recent_cluster_for k now) (storyClusters (db st)) = Some c"
  shows "fst (resolve_cluster today now k items st) = cluster_id c"
    and "storyClusters (db (snd (resolve_cluster today now k items st))) =
           map (\<lambda>row. if cluster_id row = cluster_id c then row\<lparr>updatedAt := now\<rparr> else row)
             (storyClusters (db st))"
    and "clustersCreated (snd (resolve_cluster today now k items st)) = clustersCreated st"
  using assms by (simp_all add: resolve_cluster_def Let_def)

lemma resolve_cluster_new:
  assumes "find (recent_cluster_for k now) (storyClusters (db st)) = None"
  shows "fst (resolve_cluster today now k (first # others) st) = nextId (db st)"
    and "storyClusters (db (snd (resolve_cluster today now k (first # others) st))) =
           storyClusters (db st) @
             [\<lparr>cluster_id = nextId (db st),
               canonicalTitle = js_or (title first) (k @ '' Updates - '' @ today),
               createdAt = now, updatedAt = now\<rparr>]"
    and "clustersCreated (snd (resolve_cluster today now k (first # others) st)) =
           clustersCreated st + 1"
  using assms by (simp_all add: resolve_cluster_def Let_def)

text \<open>
  C7. For a group of a clustering run with its competitor key: when the store holds a
  cluster whose canonical title contains the key and whose creation time is at most 24
  hours before now, such a cluster is reused, its \<open>updatedAt\<close> becomes now and no cluster
  is created; otherwise one cluster is appended whose canonical title is the first
  item's title, or "<key> Updates - <date>" when that title is null or empty. In both
  cases every item of the group ends up linked to the chosen cluster.
\<close>

theorem process_group_reuse_or_create:
  assumes "items = first # others"
      and "st' = process_group today now (competitorName, items) st"
  shows
    "((\<exists>c \<in> set (storyClusters (db st)).
          (\<exists>pre post. canonicalTitle c = pre @ competitorName @ post)
          \<and> now - 86400000 \<le> createdAt c)
      \<longrightarrow> (\<exists>c \<in> set (storyClusters (db st)).
             (\<exists>pre post. canonicalTitle c = pre @ competitorName @ post)
             \<and> now - 86400000 \<le> createdAt c
             \<and> storyClusters (db st') =
                 map (\<lambda>row. if cluster_id row = cluster_id c
                            then row\<lparr>updatedAt := now\<rparr> else row)
                   (storyClusters (db st))
             \<and> clustersCreated st' = clustersCreated st
             \<and> (\<forall>item \<in> set items. \<exists>l \<in> set (storyItemLinks (db st')).
                    clusterId l = cluster_id c \<and> rawItemId l = item_id item)))
   \<and> (\<not> (\<exists>c \<in> set (storyClusters (db st)).
          (\<exists>pre post. canonicalTitle c = pre @ competitorName @ post)
          \<and> now - 86400000 \<le> createdAt c)
      \<longrightarrow> storyClusters (db st') =
             storyClusters (db st) @
               [\<lparr>cluster_id = nextId (db st),
                 canonicalTitle =
                   (case title first of
                      None \<Rightarrow> competitorName @ '' Updates - '' @ today
                    | Some t \<Rightarrow> if t = [] then competitorName @ '' Updates - '' @ today else t),
                 createdAt = now, updatedAt = now\<rparr>]
          \<and> clustersCreated st' = clustersCreated st + 1
          \<and> (\<forall>item \<in> set items. \<exists>l \<in> set (storyItemLinks (db st')).
                 clusterId l = nextId (db st) \<and> rawItemId l = item_id item))"
proof -
  let ?R = "recent_cluster_for competitorName now"
  let ?res = "resolve_cluster today now competitorName items st"
  have st': "st' = link_items (fst ?res) items (snd ?res)"
    using assms by (simp add: process_group_snd)
  have linked: "\<forall>item \<in> set items. \<exists>l \<in> set (storyItemLinks (db st')).
                  clusterId l = fst ?res \<and> rawItemId l = item_id item"
    unfolding st' using link_items_has by blast
  show ?thesis
  proof (cases "find ?R (storyClusters (db st))")
    case None
    then have no: "\<not> (\<exists>c \<in> set (storyClusters (db st)).
          (\<exists>pre post. canonicalTitle c = pre @ competitorName @ post)
          \<and> now - 86400000 \<le> createdAt c)"
      by (simp add: find_None_iff recent_cluster_for_iff)
    have "storyClusters (db st') =
             storyClusters (db st) @
               [\<lparr>cluster_id = nextId (db st),
                 canonicalTitle = js_or (title first) (competitorName @ '' Updates - '' @ today),
                 createdAt = now, updatedAt = now\<rparr>]"
      and "clustersCreated st' = clustersCreated st + 1"
      and "fst ?res = nextId (db st)"
      unfolding st' using resolve_cluster_new [OF None, of today first others]
      by (simp_all add: assms(1))
    with linked no show ?thesis by (simp add: js_or_def split: option.splits)
  next
    case (Some c)
    then have c: "c \<in> set (storyClusters (db st))" "?R c"
      using find_SomeD [of ?R "storyClusters (db st)" c] by simp_all
    then have yes: "(\<exists>pre post. canonicalTitle c = pre @ competitorName @ post)
          \<and> now - 86400000 \<le> createdAt c"
      by (simp add: recent_cluster_for_iff)
    have "storyClusters (db st') =
            map (\<lambda>row. if cluster_id row = cluster_id c
                            then row\<lparr>updatedAt := now\<rparr> else row)
                   (storyClusters (db st))"
      and "clustersCreated st' = clustersCreated st"
      and "fst ?res = cluster_id c"
      unfolding st' using resolve_cluster_found [OF Some, of today items] by simp_all
    with linked c(1) yes show ?thesis by auto
  qed
qed

lemma link_item_itemsLinked_existing:
  "\<exists>l \<in> set (storyItemLinks (db st)). clusterId l = cid \<and> rawItemId l = item_id item \<Longrightarrow>
   itemsLinked (link_item cid item st) = itemsLinked st"
  using link_item_count [of cid item st] by (simp add: link_item_links)

text \<open>
  C5. A run marks every item of its batch processed, whether or not a link was new, so
  the batch of the next run shares no item with it; when the whole backlog fits into one
  batch of 100, the next run creates no cluster and no link and leaves the store as it
  is. A link is added for an item only when the store holds no link of that cluster and
  item, so a store without duplicate links stays so. The two counters returned are the
  numbers of clusters and links that the run added to the store.
\<close>

theorem dedupeAndClusterJob_idempotent:
  assumes "r1 = dedupeAndClusterJob competitors today now d"
      and "r2 = dedupeAndClusterJob competitors' today' now' (db r1)"
  shows
    "(length (filter eligible (rawItems d)) \<le> 100
        \<longrightarrow> clustersCreated r2 = 0 \<and> itemsLinked r2 = 0 \<and> db r2 = db r1)
     \<and> (\<forall>item \<in> set (unprocessedItems (db r1)).
           item_id item \<notin> item_id ` set (unprocessedItems d))
     \<and> (\<forall>item \<in> set (unprocessedItems d). \<forall>row \<in> set (rawItems (db r1)).
           item_id row = item_id item \<longrightarrow> processed row)
     \<and> ((\<exists>l \<in> set (storyItemLinks (db st)). clusterId l = cid \<and> rawItemId l = item_id item)
           \<longrightarrow> storyItemLinks (db (link_item cid item st)) = storyItemLinks (db st)
               \<and> itemsLinked (link_item cid item st) = itemsLinked st)
     \<and> (\<forall>row \<in> set (rawItems (db (link_item cid item st))).
           item_id row = item_id item \<longrightarrow> processed row)
     \<and> (distinct (storyItemLinks d) \<longrightarrow> distinct (storyItemLinks (db r1)))
     \<and> length (storyClusters (db r1)) = length (storyClusters d) + clustersCreated r1
     \<and> length (storyItemLinks (db r1)) = length (storyItemLinks d) + itemsLinked r1"
proof (intro conjI)
  show "length (filter eligible (rawItems d)) \<le> 100
        \<longrightarrow> clustersCreated r2 = 0 \<and> itemsLinked r2 = 0 \<and> db r2 = db r1"
  proof
    assume "length (filter eligible (rawItems d)) \<le> 100"
    then have "unprocessedItems (db r1) = []" unfolding assms(1) by (rule job_drains)
    then have "r2 = \<lparr>db = db r1, clustersCreated = 0, itemsLinked = 0\<rparr>"
      unfolding assms(2) by (rule job_empty_batch)
    then show "clustersCreated r2 = 0 \<and> itemsLinked r2 = 0 \<and> db r2 = db r1" by simp
  qed
  show "\<forall>item \<in> set (unprocessedItems (db r1)).
           item_id item \<notin> item_id ` set (unprocessedItems d)"
    unfolding assms(1) using next_batch_disjoint by blast
  show "\<forall>item \<in> set (unprocessedItems d). \<forall>row \<in> set (rawItems (db r1)).
           item_id row = item_id item \<longrightarrow> processed row"
    unfolding assms(1) using job_done [of d competitors today now]
    by (auto simp: all_done_def)
  show "(\<exists>l \<in> set (storyItemLinks (db st)). clusterId l = cid \<and> rawItemId l = item_id item)
           \<longrightarrow> storyItemLinks (db (link_item cid item st)) = storyItemLinks (db st)
               \<and> itemsLinked (link_item cid item st) = itemsLinked st"
    using link_item_itemsLinked_existing [of st cid item] by (simp add: link_item_links)
  show "\<forall>row \<in> set (rawItems (db (link_item cid item st))).
           item_id row = item_id item \<longrightarrow> processed row"
    by (auto simp: mark_processed_def)
  show "distinct (storyItemLinks d) \<longrightarrow> distinct (storyItemLinks (db r1))"
    unfolding assms(1) dedupeAndClusterJob_def
    using process_groups_distinct [of "\<lparr>db = d, clustersCreated = 0, itemsLinked = 0\<rparr>"]
    by simp
  show "length (storyClusters (db r1)) = length (storyClusters d) + clustersCreated r1"
    unfolding assms(1) dedupeAndClusterJob_def
    using process_groups_clusters_count
      [of today now "group_items competitors (unprocessedItems d) []"
          "\<lparr>db = d, clustersCreated = 0, itemsLinked = 0\<rparr>"]
    by simp
  show "length (storyItemLinks (db r1)) = length (storyItemLinks d) + itemsLinked r1"
    unfolding assms(1) dedupeAndClusterJob_def
    using process_groups_links_count
      [of today now "group_items competitors (unprocessedItems d) []"
          "\<lparr>db = d, clustersCreated = 0, itemsLinked = 0\<rparr>"]
    by simp
qed

theorem dedupeAndClusterJob_idempotent_witness:
  "length (filter eligible (rawItems example_database)) \<le> 100
   \<and> clustersCreated (dedupeAndClusterJob example_competitors ''2026-01-02'' 1000 example_database) = 2
   \<and> itemsLinked (dedupeAndClusterJob example_competitors ''2026-01-02'' 1000 example_database) = 2
   \<and> clustersCreated (dedupeAndClusterJob example_competitors ''2026-01-02'' 2000
        (db (dedupeAndClusterJob example_competitors ''2026-01-02'' 1000 example_database))) = 0
   \<and> itemsLinked (dedupeAndClusterJob example_competitors ''2026-01-02'' 2000
        (db (dedupeAndClusterJob example_competitors ''2026-01-02'' 1000 example_database))) = 0
   \<and> list_ex (\<lambda>l. clusterId l = 0 \<and> rawItemId l = item_id example_item)
        (storyItemLinks
          (db (dedupeAndClusterJob example_competitors ''2026-01-02'' 1000 example_database)))
   \<and> itemsLinked (link_item 0 example_item
        (dedupeAndClusterJob example_competitors ''2026-01-02'' 1000 example_database)) = 2
   \<and> distinct (storyItemLinks
        (db (dedupeAndClusterJob example_competitors ''2026-01-02'' 1000 example_database)))"
proof -
  let ?r1 = "dedupeAndClusterJob example_competitors ''2026-01-02'' 1000 example_database"
  have small: "length (filter eligible (rawItems example_database)) \<le> 100"
    by (simp add: example_database_def)
  have first: "clustersCreated ?r1 = 2 \<and> itemsLinked ?r1 = 2"
    by code_simp
  have link: "list_ex (\<lambda>l. clusterId l = 0 \<and> rawItemId l = item_id example_item)
        (storyItemLinks (db ?r1))"
    by code_simp
  have d: "distinct (storyItemLinks example_database)" by (simp add: example_database_def)
  from dedupeAndClusterJob_idempotent
    [where competitors = example_competitors and today = "''2026-01-02''" and now = 1000
       and d = example_database and competitors' = example_competitors
       and today' = "''2026-01-02''" and now' = 2000
       and st = ?r1 and cid = 0 and item = example_item, OF refl refl]
    small first link d
  show ?thesis unfolding list_ex_iff by simp
qed

theorem process_group_reuse_or_create_witness:
  "storyClusters (db (process_group ''2026-01-02'' 1000
       (''unknown'', [example_untitled_item])
       \<lparr>db = example_database, clustersCreated = 0, itemsLinked = 0\<rparr>))
     = [\<lparr>cluster_id = 0, canonicalTitle = ''unknown Updates - 2026-01-02'',
         createdAt = 1000, updatedAt = 1000\<rparr>]
   \<and> storyClusters (db (process_group ''2026-01-03'' 5000
       (''Podium'', [example_item])
       \<lparr>db = example_database\<lparr>storyClusters :=
               [\<lparr>cluster_id = 7, canonicalTitle = ''Podium adds AI chat'',
                 createdAt = 1000, updatedAt = 1000\<rparr>]\<rparr>,
         clustersCreated = 0, itemsLinked = 0\<rparr>))
     = [\<lparr>cluster_id = 7, canonicalTitle = ''Podium adds AI chat'',
         createdAt = 1000, updatedAt = 5000\<rparr>]"
proof
  show "storyClusters (db (process_group ''2026-01-02'' 1000
       (''unknown'', [example_untitled_item])
       \<lparr>db = example_database, clustersCreated = 0, itemsLinked = 0\<rparr>))
     = [\<lparr>cluster_id = 0, canonicalTitle = ''unknown Updates - 2026-01-02'',
         createdAt = 1000, updatedAt = 1000\<rparr>]"
    using process_group_reuse_or_create
      [where first = example_untitled_item and others = "[]"
         and st = "\<lparr>db = example_database, clustersCreated = 0, itemsLinked = 0\<rparr>"
         and competitorName = "''unknown''" and now = 1000 and today = "''2026-01-02''",
       OF refl refl]
    by (simp add: example_database_def example_untitled_item_def)
  have "''Podium adds AI chat'' = [] @ ''Podium'' @ '' adds AI chat''" by simp
  then have ex: "\<exists>pre post. ''Podium adds AI chat'' = pre @ ''Podium'' @ post" by blast
  show "storyClusters (db (process_group ''2026-01-03'' 5000
       (''Podium'', [example_item])
       \<lparr>db = example_database\<lparr>storyClusters :=
               [\<lparr>cluster_id = 7, canonicalTitle = ''Podium adds AI chat'',
                 createdAt = 1000, updatedAt = 1000\<rparr>]\<rparr>,
         clustersCreated = 0, itemsLinked = 0\<rparr>))
     = [\<lparr>cluster_id = 7, canonicalTitle = ''Podium adds AI chat'',
         createdAt = 1000, updatedAt = 5000\<rparr>]"
    using process_group_reuse_or_create
      [where first = example_item and others = "[]"
         and st = "\<lparr>db = example_database\<lparr>storyClusters :=
               [\<lparr>cluster_id = 7, canonicalTitle = ''Podium adds AI chat'',
                 createdAt = 1000, updatedAt = 1000\<rparr>]\<rparr>,
           clustersCreated = 0, itemsLinked = 0\<rparr>"
         and competitorName = "''Podium''" and now = 5000 and today = "''2026-01-03''",
       OF refl refl] ex
    by (simp add: example_database_def)
qed

section \<open>Alerts: matching and at most one notification\<close>

lemma notified_zero:
  "notified u sid ns = 0 \<longleftrightarrow> find (\<lambda>n. notification_userId n = u \<and> storyId n = sid) ns = None"
  by (auto simp: notified_def find_None_iff filter_empty_conv)

lemma alert_step_cases:
  "alert_step s alert st =
     (if alert_matches alert s \<and> notified (userId alert) (summary_id s) (notifications st) = 0
      then st\<lparr>notifications := notifications st @
                   [\<lparr>notification_userId = userId alert,
                     notification_title =
                       priority_string (priority s) @ '': '' @
                       js_or (competitor_name s) ''Competitor'' @ '' Update'',
                     message = take 200 (summary s),
                     storyId = summary_id s\<rparr>],
              alertsSent := alertsSent st + 1\<rparr>
      else st)"
  by (auto simp: alert_step_def alert_matches_def notified_zero split: option.splits)

lemma alert_step_notified:
  "notified u sid (notifications (alert_step s alert st)) =
     (if notified u sid (notifications st) = 0 \<and> alert_matches alert s
         \<and> userId alert = u \<and> summary_id s = sid
      then 1 else notified u sid (notifications st))"
  by (auto simp: alert_step_cases) (auto simp: notified_def)

lemma alert_step_count:
  "length (notifications (alert_step s alert st)) + alertsSent st =
     length (notifications st) + alertsSent (alert_step s alert st)"
  by (simp add: alert_step_cases)

lemma alerts_loop_notified:
  "notified u sid (notifications (alerts_loop s alerts st)) =
     (if notified u sid (notifications st) = 0 \<and> summary_id s = sid
         \<and> (\<exists>alert \<in> set alerts. userId alert = u \<and> alert_matches alert s)
      then 1 else notified u sid (notifications st))"
proof (induction alerts arbitrary: st)
  case Nil
  show ?case by simp
next
  case (Cons alert alerts)
  show ?case
    unfolding alerts_loop.simps Cons [of "alert_step s alert st"] alert_step_notified
    by auto
qed

lemma alerts_loop_count:
  "length (notifications (alerts_loop s alerts st)) + alertsSent st =
     length (notifications st) + alertsSent (alerts_loop s alerts st)"
proof (induction alerts arbitrary: st)
  case Nil
  show ?case by simp
next
  case (Cons alert alerts)
  show ?case using Cons [of "alert_step s alert st"] alert_step_count [of s alert st] by simp
qed

lemma summaries_loop_notified:
  "notified u sid (notifications (summaries_loop ss alerts st)) =
     (if notified u sid (notifications st) = 0
         \<and> (\<exists>s \<in> set ss. summary_id s = sid
               \<and> (\<exists>alert \<in> set alerts. userId alert = u \<and> alert_matches alert s))
      then 1 else notified u sid (notifications st))"
proof (induction ss arbitrary: st)
  case Nil
  show ?case by simp
next
  case (Cons s ss)
  show ?case
    unfolding summaries_loop.simps Cons [of "alerts_loop s alerts st"] alerts_loop_notified
    by auto
qed

lemma summaries_loop_count:
  "length (notifications (summaries_loop ss alerts st)) + alertsSent st =
     length (notifications st) + alertsSent (summaries_loop ss alerts st)"
proof (induction ss arbitrary: st)
  case Nil
  show ?case by simp
next
  case (Cons s ss)
  show ?case using Cons [of "alerts_loop s alerts st"] alerts_loop_count [of s alerts st] by simp
qed

lemma alert_matches_iff:
  "alert_matches alert s \<longleftrightarrow>
     (alert_verticals alert = [] \<or> (\<exists>v \<in> set (alert_verticals alert). Some v = verticalId s))
     \<and> (alert_competitors alert = []
          \<or> (\<exists>c \<in> set (alert_competitors alert). Some c = competitorId s))
     \<and> (priority s = P0 \<or> (priority s = P1 \<and> minPriority alert \<noteq> P0))
     \<and> (alert_aiCapabilities alert = []
          \<or> set (alert_aiCapabilities alert) \<inter> set (summary_aiCapabilities s) \<noteq> {})"
proof -
  have "(\<exists>c \<in> set (summary_aiCapabilities s). c \<in> set (alert_aiCapabilities alert)) \<longleftrightarrow>
          set (alert_aiCapabilities alert) \<inter> set (summary_aiCapabilities s) \<noteq> {}"
    by blast
  then show ?thesis
    by (simp only: alert_matches_def matchesVertical_def matchesCompetitor_def
          matchesPriority_def matchesCapability_def list_ex_iff length_0_conv)
qed

text \<open>
  C9. A rule matches a summary exactly when its vertical filter is empty or contains the
  summary's vertical, its competitor filter is empty or contains the summary's
  competitor, the summary is P0 or it is P1 and the rule's minimum priority is not P0,
  and its capability filter is empty or shares a capability with the summary. For a
  summary and a rule the job handles, a notification is created exactly when the rule
  matches and no notification of the rule's user for that summary is stored yet. So
  after the job a user has a notification for a summary they had none for exactly when
  an active rule of theirs matches that recent P0 or P1 summary, then exactly one, and
  the count of any other pair is unchanged. The counter returned is the number of
  notifications added.
\<close>

theorem alertsJob_matching:
  assumes "r = alertsJob now summaryRows alertRows notificationRows"
  shows
    "(alert_matches alert s \<longleftrightarrow>
       (alert_verticals alert = [] \<or> (\<exists>v \<in> set (alert_verticals alert). Some v = verticalId s))
       \<and> (alert_competitors alert = []
            \<or> (\<exists>c \<in> set (alert_competitors alert). Some c = competitorId s))
       \<and> (priority s = P0 \<or> (priority s = P1 \<and> minPriority alert \<noteq> P0))
       \<and> (alert_aiCapabilities alert = []
            \<or> set (alert_aiCapabilities alert) \<inter> set (summary_aiCapabilities s) \<noteq> {}))
     \<and> alert_step s alert st =
         (if alert_matches alert s
             \<and> \<not> (\<exists>n \<in> set (notifications st).
                      notification_userId n = userId alert \<and> storyId n = summary_id s)
          then st\<lparr>notifications := notifications st @
                   [\<lparr>notification_userId = userId alert,
                     notification_title =
                       priority_string (priority s) @ '': '' @
                       js_or (competitor_name s) ''Competitor'' @ '' Update'',
                     message = take 200 (summary s),
                     storyId = summary_id s\<rparr>],
                  alertsSent := alertsSent st + 1\<rparr>
          else st)
     \<and> notified u sid (notifications r) =
         (if notified u sid notificationRows = 0
             \<and> (\<exists>x \<in> set summaryRows.
                   (priority x = P0 \<or> priority x = P1)
                   \<and> now - 21600000 \<le> summary_createdAt x
                   \<and> summary_id x = sid
                   \<and> (\<exists>a \<in> set alertRows. isActive a \<and> userId a = u \<and> alert_matches a x))
          then 1 else notified u sid notificationRows)
     \<and> (notified u sid notificationRows \<le> 1 \<longrightarrow> notified u sid (notifications r) \<le> 1)
     \<and> length (notifications r) = length notificationRows + alertsSent r"
proof (intro conjI)
  show "alert_matches alert s \<longleftrightarrow>
       (alert_verticals alert = [] \<or> (\<exists>v \<in> set (alert_verticals alert). Some v = verticalId s))
       \<and> (alert_competitors alert = []
            \<or> (\<exists>c \<in> set (alert_competitors alert). Some c = competitorId s))
       \<and> (priority s = P0 \<or> (priority s = P1 \<and> minPriority alert \<noteq> P0))
       \<and> (alert_aiCapabilities alert = []
            \<or> set (alert_aiCapabilities alert) \<inter> set (summary_aiCapabilities s) \<noteq> {})"
    by (rule alert_matches_iff)
  show "alert_step s alert st =
         (if alert_matches alert s
             \<and> \<not> (\<exists>n \<in> set (notifications st).
                      notification_userId n = userId alert \<and> storyId n = summary_id s)
          then st\<lparr>notifications := notifications st @
                   [\<lparr>notification_userId = userId alert,
                     notification_title =
                       priority_string (priority s) @ '': '' @
                       js_or (competitor_name s) ''Competitor'' @ '' Update'',
                     message = take 200 (summary s),
                     storyId = summary_id s\<rparr>],
                  alertsSent := alertsSent st + 1\<rparr>
          else st)"
    unfolding alert_step_cases by (simp add: notified_zero find_None_iff)
  show n: "notified u sid (notifications r) =
         (if notified u sid notificationRows = 0
             \<and> (\<exists>x \<in> set summaryRows.
                   (priority x = P0 \<or> priority x = P1)
                   \<and> now - 21600000 \<le> summary_createdAt x
                   \<and> summary_id x = sid
                   \<and> (\<exists>a \<in> set alertRows. isActive a \<and> userId a = u \<and> alert_matches a x))
          then 1 else notified u sid notificationRows)"
    unfolding assms alertsJob_def summaries_loop_notified
    by (auto simp: recentSummaries_def SIX_HOURS_MS_def)
  show "notified u sid notificationRows \<le> 1 \<longrightarrow> notified u sid (notifications r) \<le> 1"
    unfolding n by simp
  show "length (notifications r) = length notificationRows + alertsSent r"
    unfolding assms alertsJob_def
    using summaries_loop_count [of "recentSummaries now summaryRows" "filter isActive alertRows"
        "\<lparr>notifications = notificationRows, alertsSent = 0\<rparr>"]
    by simp
qed

theorem alertsJob_matching_witness:
  "notified 5 1 [] \<le> 1
   \<and> notified 5 1 (notifications
        (alertsJob 1000 [example_summary] [example_alert, example_alert] [])) \<le> 1
   \<and> alertsSent (alertsJob 1000 [example_summary] [example_alert, example_alert] []) = 1"
proof -
  have a: "notified 5 1 [] \<le> 1" by (simp add: notified_def)
  have b: "alertsSent (alertsJob 1000 [example_summary] [example_alert, example_alert] []) = 1"
    by code_simp
  from alertsJob_matching
    [where now = 1000 and summaryRows = "[example_summary]"
       and alertRows = "[example_alert, example_alert]" and notificationRows = "[]"
       and u = 5 and sid = 1, OF refl] a b
  show ?thesis by blast
qed

section \<open>The full pipeline: the job log\<close>

lemma runAllJobs_failed:
  assumes "pipeline_body J (world s) = (Inl e, w)"
  shows "runAllJobs J now s =
           (Inl e,
            \<lparr>world = w,
              jobRunLogs =
                map (\<lambda>row. if log_id row = nextLogId s
                           then row\<lparr>log_status := FAILED, finishedAt := Some now,
                                    itemsProcessed := Some 0,
                                    errorMessage := Some (errorMsg e)\<rparr>
                           else row) (jobRunLogs s) @
                [\<lparr>log_id = nextLogId s, jobName = ''full_pipeline'', log_status = FAILED,
                  finishedAt = Some now, itemsProcessed = Some 0,
                  errorMessage = Some (errorMsg e)\<rparr>],
              nextLogId = nextLogId s + 1\<rparr>)"
  using assms by (simp add: runAllJobs_def createJobLog_def updateJobLog_def)

lemma runAllJobs_completed:
  assumes "pipeline_body J (world s) = (Inr totalProcessed, w)"
  shows "runAllJobs J now s =
           (Inr (),
            \<lparr>world = w,
              jobRunLogs =
                map (\<lambda>row. if log_id row = nextLogId s
                           then row\<lparr>log_status := COMPLETED, finishedAt := Some now,
                                    itemsProcessed := Some totalProcessed\<rparr>
                           else row) (jobRunLogs s) @
                [\<lparr>log_id = nextLogId s, jobName = ''full_pipeline'', log_status = COMPLETED,
                  finishedAt = Some now, itemsProcessed = Some totalProcessed,
                  errorMessage = None\<rparr>],
              nextLogId = nextLogId s + 1\<rparr>)"
  using assms by (simp add: runAllJobs_def createJobLog_def updateJobLog_def)

text \<open>
  C8, as the code has it. When a stage throws, the stages after it do not run, the
  run's log row becomes FAILED with item count 0 and the whole message of the thrown
  value (\<^verbatim>\<open>error.message\<close>, or \<^verbatim>\<open>String(error)\<close> when it is not an \<^verbatim>\<open>Error\<close>), and
  the same value is thrown to the caller. When no stage throws, the row becomes
  COMPLETED with the sum of the items fetched, normalised, linked, summarised and
  alerted, the stages having run in that order.
\<close>

theorem runAllJobs_outcome:
  assumes "runAllJobs J now s = (result, s')"
  shows
    "(pipeline_body J (world s) = (Inl e, w)
        \<longrightarrow> result = Inl e \<and> world s' = w
            \<and> length (jobRunLogs s') = length (jobRunLogs s) + 1
            \<and> last (jobRunLogs s') =
                \<lparr>log_id = nextLogId s, jobName = ''full_pipeline'', log_status = FAILED,
                  finishedAt = Some now, itemsProcessed = Some 0,
                  errorMessage = Some (errorMsg e)\<rparr>)
     \<and> (pipeline_body J (world s) = (Inr totalProcessed, w)
        \<longrightarrow> result = Inr () \<and> world s' = w
            \<and> length (jobRunLogs s') = length (jobRunLogs s) + 1
            \<and> last (jobRunLogs s') =
                \<lparr>log_id = nextLogId s, jobName = ''full_pipeline'', log_status = COMPLETED,
                  finishedAt = Some now, itemsProcessed = Some totalProcessed,
                  errorMessage = None\<rparr>)
     \<and> (fetch_stage J w0 = (Inl e, w1) \<longrightarrow> pipeline_body J w0 = (Inl e, w1))
     \<and> (fetch_stage J w0 = (Inr itemsFetched, w1) \<and> normalize_stage J w1 = (Inl e, w2)
        \<longrightarrow> pipeline_body J w0 = (Inl e, w2))
     \<and> (fetch_stage J w0 = (Inr itemsFetched, w1) \<and> normalize_stage J w1 = (Inr normalized, w2)
        \<and> cluster_stage J w2 = (Inl e, w3)
        \<longrightarrow> pipeline_body J w0 = (Inl e, w3))
     \<and> (fetch_stage J w0 = (Inr itemsFetched, w1) \<and> normalize_stage J w1 = (Inr normalized, w2)
        \<and> cluster_stage J w2 = (Inr (created, linked), w3) \<and> summarize_stage J w3 = (Inl e, w4)
        \<longrightarrow> pipeline_body J w0 = (Inl e, w4))
     \<and> (fetch_stage J w0 = (Inr itemsFetched, w1) \<and> normalize_stage J w1 = (Inr normalized, w2)
        \<and> cluster_stage J w2 = (Inr (created, linked), w3)
        \<and> summarize_stage J w3 = (Inr summariesCreated, w4) \<and> alerts_stage J w4 = (Inl e, w5)
        \<longrightarrow> pipeline_body J w0 = (Inl e, w5))
     \<and> (fetch_stage J w0 = (Inr itemsFetched, w1) \<and> normalize_stage J w1 = (Inr normalized, w2)
        \<and> cluster_stage J w2 = (Inr (created, linked), w3)
        \<and> summarize_stage J w3 = (Inr summariesCreated, w4) \<and> alerts_stage J w4 = (Inr sent, w5)
        \<longrightarrow> pipeline_body J w0 =
              (Inr (itemsFetched + normalized + linked + summariesCreated + sent), w5))"
proof (intro conjI impI)
  assume "pipeline_body J (world s) = (Inl e, w)"
  from runAllJobs_failed [OF this, of now] assms
  have r: "result = Inl e" and s': "s' = \<lparr>world = w,
              jobRunLogs =
                map (\<lambda>row. if log_id row = nextLogId s
                           then row\<lparr>log_status := FAILED, finishedAt := Some now,
                                    itemsProcessed := Some 0,
                                    errorMessage := Some (errorMsg e)\<rparr>
                           else row) (jobRunLogs s) @
                [\<lparr>log_id = nextLogId s, jobName = ''full_pipeline'', log_status = FAILED,
                  finishedAt = Some now, itemsProcessed = Some 0,
                  errorMessage = Some (errorMsg e)\<rparr>],
              nextLogId = nextLogId s + 1\<rparr>" by simp_all
  show "result = Inl e" by (rule r)
  show "world s' = w" by (simp add: s')
  show "length (jobRunLogs s') = length (jobRunLogs s) + 1" by (simp add: s')
  show "last (jobRunLogs s') =
                \<lparr>log_id = nextLogId s, jobName = ''full_pipeline'', log_status = FAILED,
                  finishedAt = Some now, itemsProcessed = Some 0,
                  errorMessage = Some (errorMsg e)\<rparr>" by (simp add: s')
next
  assume "pipeline_body J (world s) = (Inr totalProcessed, w)"
  from runAllJobs_completed [OF this, of now] assms
  have r: "result = Inr ()" and s': "s' = \<lparr>world = w,
              jobRunLogs =
                map (\<lambda>row. if log_id row = nextLogId s
                           then row\<lparr>log_status := COMPLETED, finishedAt := Some now,
                                    itemsProcessed := Some totalProcessed\<rparr>
                           else row) (jobRunLogs s) @
                [\<lparr>log_id = nextLogId s, jobName = ''full_pipeline'', log_status = COMPLETED,
                  finishedAt = Some now, itemsProcessed = Some totalProcessed,
                  errorMessage = None\<rparr>],
              nextLogId = nextLogId s + 1\<rparr>" by simp_all
  show "result = Inr ()" by (rule r)
  show "world s' = w" by (simp add: s')
  show "length (jobRunLogs s') = length (jobRunLogs s) + 1" by (simp add: s')
  show "last (jobRunLogs s') =
                \<lparr>log_id = nextLogId s, jobName = ''full_pipeline'', log_status = COMPLETED,
                  finishedAt = Some now, itemsProcessed = Some totalProcessed,
                  errorMessage = None\<rparr>" by (simp add: s')
qed (simp_all add: pipeline_body_def)

text \<open>
  C8 as stated says that the stored message is truncated. A stage that throws an
  \<^verbatim>\<open>Error\<close> with a message of 1000 code units leaves all 1000 in the log.
\<close>

theorem runAllJobs_truncation_counterexample:
  "fst (runAllJobs failing_pipeline 1000 empty_system) = Inl (ErrorObject example_long_message)
   \<and> map errorMessage (jobRunLogs (snd (runAllJobs failing_pipeline 1000 empty_system)))
       = [Some example_long_message]
   \<and> length example_long_message = 1000"
  by (simp add: runAllJobs_def createJobLog_def updateJobLog_def pipeline_body_def
        failing_pipeline_def empty_system_def example_long_message_def)

theorem runAllJobs_outcome_witness:
  "fetch_stage failing_pipeline 0 = (Inr 3, 1)
   \<and> normalize_stage failing_pipeline 1 = (Inr 2, 2)
   \<and> cluster_stage failing_pipeline 2 = (Inl (ErrorObject example_long_message), 3)
   \<and> pipeline_body failing_pipeline (world empty_system)
       = (Inl (ErrorObject example_long_message), 3)
   \<and> fst (runAllJobs failing_pipeline 1000 empty_system) = Inl (ErrorObject example_long_message)
   \<and> last (jobRunLogs (snd (runAllJobs failing_pipeline 1000 empty_system))) =
        \<lparr>log_id = 0, jobName = ''full_pipeline'', log_status = FAILED,
          finishedAt = Some 1000, itemsProcessed = Some 0,
          errorMessage = Some example_long_message\<rparr>
   \<and> pipeline_body working_pipeline (world empty_system) = (Inr 12, 5)
   \<and> fst (runAllJobs working_pipeline 1000 empty_system) = Inr ()
   \<and> last (jobRunLogs (snd (runAllJobs working_pipeline 1000 empty_system))) =
        \<lparr>log_id = 0, jobName = ''full_pipeline'', log_status = COMPLETED,
          finishedAt = Some 1000, itemsProcessed = Some 12, errorMessage = None\<rparr>"
proof -
  have stages:
    "fetch_stage failing_pipeline 0 = (Inr 3, 1)
     \<and> normalize_stage failing_pipeline 1 = (Inr 2, 2)
     \<and> cluster_stage failing_pipeline 2 = (Inl (ErrorObject example_long_message), 3)"
    by (simp add: failing_pipeline_def)
  have stages':
    "fetch_stage working_pipeline 0 = (Inr 3, 1)
     \<and> normalize_stage working_pipeline 1 = (Inr 2, 2)
     \<and> cluster_stage working_pipeline 2 = (Inr (4, 5), 3)
     \<and> summarize_stage working_pipeline 3 = (Inr 1, 4)
     \<and> alerts_stage working_pipeline 4 = (Inr 1, 5)"
    by (simp add: working_pipeline_def failing_pipeline_def)
  have w: "world empty_system = 0" and n: "nextLogId empty_system = 0"
    by (simp_all add: empty_system_def)
  note failing = runAllJobs_outcome
    [where J = failing_pipeline and now = 1000 and s = empty_system
       and e = "ErrorObject example_long_message" and w = 3
       and ?w0.0 = 0 and ?w1.0 = 1 and ?w2.0 = 2 and ?w3.0 = 3
       and itemsFetched = 3 and normalized = 2, OF prod.collapse [symmetric]]
  note working = runAllJobs_outcome
    [where J = working_pipeline and now = 1000 and s = empty_system
       and totalProcessed = 12 and w = 5
       and ?w0.0 = 0 and ?w1.0 = 1 and ?w2.0 = 2 and ?w3.0 = 3 and ?w4.0 = 4 and ?w5.0 = 5
       and itemsFetched = 3 and normalized = 2 and created = 4 and linked = 5
       and summariesCreated = 1 and sent = 1, OF prod.collapse [symmetric]]
  from failing stages w have f: "pipeline_body failing_pipeline (world empty_system)
             = (Inl (ErrorObject example_long_message), 3)" by simp
  from working stages' w have g: "pipeline_body working_pipeline (world empty_system) = (Inr 12, 5)"
    by simp
  from failing working f g n stages show ?thesis by simp
qed

end
